theory Spec2Isabelle
  imports Main "HOL-Library.Word"
begin

section \<open>JavaScript strings\<close>

text \<open>
  A JavaScript string is a sequence of 16-bit code units.  \<open>js\<close> reads an ASCII
  literal of the source as such a sequence.
\<close>

type_synonym jschar = "16 word"
type_synonym jstring = "jschar list"

definition js :: "string \<Rightarrow> jstring" where
  "js s = map (\<lambda>c. of_nat (of_char c)) s"

text \<open>
  \<open>WhiteSpace\<close> and \<open>LineTerminator\<close> of ECMAScript.  \<open>String.prototype.trim\<close> strips
  both classes, the regular expression atom \<open>\s\<close> matches both, and \<open>.\<close> (without
  the \<open>s\<close> flag) matches every code unit that is no line terminator.  \<open>\w\<close> is
  \<open>[A-Za-z0-9_]\<close>.
\<close>

definition isWhiteSpace :: "jschar \<Rightarrow> bool" where
  "isWhiteSpace c \<longleftrightarrow>
     c \<in> {0x0009, 0x000B, 0x000C, 0x0020, 0x00A0, 0x1680, 0x202F, 0x205F, 0x3000, 0xFEFF}
     \<or> (0x2000 \<le> c \<and> c \<le> 0x200A)"

definition isLineTerminator :: "jschar \<Rightarrow> bool" where
  "isLineTerminator c \<longleftrightarrow> c \<in> {0x000A, 0x000D, 0x2028, 0x2029}"

definition isSpace :: "jschar \<Rightarrow> bool" where
  "isSpace c \<longleftrightarrow> isWhiteSpace c \<or> isLineTerminator c"

definition isWordChar :: "jschar \<Rightarrow> bool" where
  "isWordChar c \<longleftrightarrow>
     (0x41 \<le> c \<and> c \<le> 0x5A) \<or> (0x61 \<le> c \<and> c \<le> 0x7A) \<or> (0x30 \<le> c \<and> c \<le> 0x39) \<or> c = 0x5F"

definition trim :: "jstring \<Rightarrow> jstring" where
  "trim s = rev (dropWhile isSpace (rev (dropWhile isSpace s)))"

section \<open>Conversation turns and the histories sent to the providers\<close>

text \<open>
  A turn of \<open>conversation_history\<close> as the request body carries it.  The servers read
  the fields \<open>type\<close> and \<open>content\<close> only; either may be missing (\<open>None\<close>).
\<close>

record turn =
  turn_type :: "jstring option"
  turn_content :: "jstring option"

datatype role = User | Model | Assistant | System

text \<open>An entry of the Gemini chat history: \<open>{role, parts: [{text}]}\<close>.\<close>

record gturn =
  g_role :: role
  g_text :: jstring

text \<open>A message of the Ollama chat request: \<open>{role, content}\<close>.\<close>

record omsg =
  o_role :: role
  o_content :: jstring

text \<open>The filter \<open>(msg) => msg.content?.trim()\<close>: a turn is kept when the trimmed
  content is a non-empty string.\<close>

definition has_content :: "turn \<Rightarrow> bool" where
  "has_content msg = (case turn_content msg of None \<Rightarrow> False | Some c \<Rightarrow> trim c \<noteq> [])"

definition content_of :: "turn \<Rightarrow> jstring" where
  "content_of msg = (case turn_content msg of None \<Rightarrow> [] | Some c \<Rightarrow> c)"

definition is_user :: "turn \<Rightarrow> bool" where
  "is_user msg \<longleftrightarrow> turn_type msg = Some (js ''user'')"

subsection \<open>callGeminiWithTools: formatting the history\<close>

definition gemini_format :: "turn list \<Rightarrow> gturn list" where
  "gemini_format conversationHistory =
     map (\<lambda>msg. \<lparr>g_role = (if is_user msg then User else Model), g_text = content_of msg\<rparr>)
       (filter has_content conversationHistory)"

definition ensure_first_user :: "jstring \<Rightarrow> gturn list \<Rightarrow> gturn list" where
  "ensure_first_user userMessage history =
     (if length history = 0 \<or> g_role (history ! 0) \<noteq> User
      then [\<lparr>g_role = User, g_text = userMessage\<rparr>]
      else history)"

text \<open>The loop \<open>for (let i = 0; i < history.length; i++)\<close> that fills \<open>cleanHistory\<close>.\<close>

function clean_loop :: "gturn list \<Rightarrow> nat \<Rightarrow> gturn list \<Rightarrow> gturn list" where
  "clean_loop history i cleanHistory =
     (if i < length history
      then clean_loop history (i + 1)
             (if i = 0 \<or> g_role (history ! i) \<noteq> g_role (history ! (i - 1))
              then cleanHistory @ [history ! i] else cleanHistory)
      else cleanHistory)"
  by pat_completeness auto
termination
  by (relation "measure (\<lambda>(history, i, cleanHistory). length history - i)") auto

declare clean_loop.simps [simp del]

definition gemini_history :: "jstring \<Rightarrow> turn list \<Rightarrow> gturn list" where
  "gemini_history userMessage conversationHistory =
     clean_loop (ensure_first_user userMessage (gemini_format conversationHistory)) 0 []"

subsection \<open>callOllama: building the messages\<close>

text \<open>\<open>if (systemPrompt)\<close> holds for a non-empty string; \<open>null\<close> is \<open>None\<close>.\<close>

definition ollama_messages :: "jstring \<Rightarrow> turn list \<Rightarrow> jstring option \<Rightarrow> omsg list" where
  "ollama_messages userMessage conversationHistory systemPrompt =
     (case systemPrompt of
        None \<Rightarrow> []
      | Some p \<Rightarrow> if p = [] then [] else [\<lparr>o_role = System, o_content = p\<rparr>])
     @ map (\<lambda>msg. \<lparr>o_role = (if is_user msg then User else Assistant), o_content = content_of msg\<rparr>)
         (filter has_content conversationHistory)
     @ [\<lparr>o_role = User, o_content = userMessage\<rparr>]"

section \<open>Tool calls, frames and the outside world\<close>

text \<open>
  A tool call requested by the model: a name and an argument object.  The type \<open>'j\<close> is
  the type of JSON values (argument values and tool results); the code never looks into
  them, apart from converting an argument to a string in a URL.  An object is the list
  of its properties, each key once; \<open>args.city\<close> is \<open>map_of args (js ''city'')\<close>,
  and \<open>None\<close> is \<open>undefined\<close>.
\<close>

record 'j tool_call =
  call_name :: jstring
  call_args :: "(jstring \<times> 'j) list"

text \<open>What both adapters return: \<open>{functionCalls, text}\<close>.\<close>

record 'j model_response =
  resp_calls :: "'j tool_call list"
  resp_text :: jstring

text \<open>The frames of the response body, one JSON object per line.\<close>

datatype status = Executing | Completed | Failed

datatype 'j frame =
    Thinking jstring
  | FunctionCall jstring "(jstring \<times> 'j) list option" status "'j option" "jstring option"
  | Content jstring
  | Complete
  | ErrorFrame jstring

text \<open>The requests that leave the process, and the events of one request in order.\<close>

datatype request =
    HttpGet jstring
  | GeminiChat "gturn list" jstring
  | GeminiGenerate jstring
  | OllamaChat "omsg list"

datatype 'j event = Opened | Wrote "'j frame" | Ended | Called request

text \<open>
  The answer of the Gemini SDK to \<open>chat.sendMessage\<close>: \<open>response.functionCalls()\<close> may be
  undefined (\<open>None\<close>).  The answer of the Ollama server to the POST: the fetch fails, the
  status is not ok, the body is no JSON, or the body is read and \<open>data.message?.content\<close>
  is a string or missing.
\<close>

record 'j gemini_answer =
  ans_calls :: "'j tool_call list option"
  ans_text :: jstring

datatype ollama_answer =
    FetchFailed jstring
  | NotOk jstring jstring
  | BodyInvalid jstring
  | Replied "jstring option"

text \<open>
  The collaborators and the runtime functions the code calls, over a world \<open>'w\<close> that
  each outbound call may change.  A thrown \<open>Error\<close> is \<open>Inl\<close> of its message.  Every
  awaited call is taken to settle: it returns or it throws.  \<open>ToString\<close> is the conversion
  that a template literal applies to a value; it throws a \<open>TypeError\<close> for a value that has
  no primitive conversion, such as an object whose own \<open>toString\<close> is not a function.
\<close>

record ('w, 'j) env =
  fetch_json :: "jstring \<Rightarrow> 'w \<Rightarrow> (jstring + 'j) \<times> 'w"
  gemini_send :: "gturn list \<Rightarrow> jstring \<Rightarrow> 'w \<Rightarrow> (jstring + 'j gemini_answer) \<times> 'w"
  gemini_generate :: "jstring \<Rightarrow> 'w \<Rightarrow> (jstring + jstring) \<times> 'w"
  ollama_post :: "omsg list \<Rightarrow> 'w \<Rightarrow> ollama_answer \<times> 'w"
  JSON_parse :: "jstring \<Rightarrow> (jstring \<times> 'j) list option"
  JSON_stringify :: "'j \<Rightarrow> jstring"
  ToString :: "'j \<Rightarrow> jstring + jstring"

record ('w, 'j) sys =
  world :: 'w
  trace :: "'j event list"

definition emit :: "'j event \<Rightarrow> ('w, 'j) sys \<Rightarrow> ('w, 'j) sys" where
  "emit e s = s\<lparr>trace := trace s @ [e]\<rparr>"

definition res_write :: "'j frame \<Rightarrow> ('w, 'j) sys \<Rightarrow> ('w, 'j) sys" where
  "res_write f s = emit (Wrote f) s"

definition res_end :: "('w, 'j) sys \<Rightarrow> ('w, 'j) sys" where
  "res_end s = emit Ended s"

definition frames_of :: "'j event list \<Rightarrow> 'j frame list" where
  "frames_of es = concat (map (\<lambda>e. case e of Wrote f \<Rightarrow> [f] | _ \<Rightarrow> []) es)"

section \<open>The external API handlers\<close>

text \<open>\<open>fetch(url)\<close> followed by \<open>response.json()\<close>.\<close>

definition http_get_json ::
  "('w, 'j) env \<Rightarrow> jstring \<Rightarrow> ('w, 'j) sys \<Rightarrow> (jstring + 'j) \<times> ('w, 'j) sys" where
  "http_get_json env url s =
     (case fetch_json env url (world s) of
        (r, w') \<Rightarrow> (r, \<lparr>world = w', trace = trace s @ [Called (HttpGet url)]\<rparr>))"

text \<open>
  An argument inside a template literal: a missing property reads \<open>undefined\<close>, any other
  value is converted, and the conversion may throw.  The URL is built before \<open>fetch\<close> is
  called, so a conversion that throws leaves the handler without an outbound call; the
  substitutions are converted from left to right.
\<close>

definition template :: "('w, 'j) env \<Rightarrow> 'j option \<Rightarrow> jstring + jstring" where
  "template env v = (case v of None \<Rightarrow> Inr (js ''undefined'') | Some x \<Rightarrow> ToString env x)"

definition getCityWeatherReport ::
  "('w, 'j) env \<Rightarrow> 'j option \<Rightarrow> ('w, 'j) sys \<Rightarrow> (jstring + 'j) \<times> ('w, 'j) sys" where
  "getCityWeatherReport env city s =
     (case template env city of
        Inl err \<Rightarrow> (Inl err, s)
      | Inr c \<Rightarrow> http_get_json env (js ''http://localhost:3000/getWeatherDetails?city='' @ c) s)"

definition getLoctionWiseUserReport ::
  "('w, 'j) env \<Rightarrow> 'j option \<Rightarrow> ('w, 'j) sys \<Rightarrow> (jstring + 'j) \<times> ('w, 'j) sys" where
  "getLoctionWiseUserReport env city s =
     (case template env city of
        Inl err \<Rightarrow> (Inl err, s)
      | Inr c \<Rightarrow> http_get_json env (js ''http://localhost:3000/getUserByCity?city='' @ c) s)"

definition deleteUserByEmail ::
  "('w, 'j) env \<Rightarrow> 'j option \<Rightarrow> 'j option \<Rightarrow> ('w, 'j) sys \<Rightarrow> (jstring + 'j) \<times> ('w, 'j) sys" where
  "deleteUserByEmail env email token s =
     (case template env email of
        Inl err \<Rightarrow> (Inl err, s)
      | Inr e \<Rightarrow>
          (case template env token of
             Inl err \<Rightarrow> (Inl err, s)
           | Inr t \<Rightarrow>
               http_get_json env
                 (js ''http://localhost:3000/deleteUser?email='' @ e @ js ''&token='' @ t) s))"

definition executeTool ::
  "('w, 'j) env \<Rightarrow> jstring \<Rightarrow> (jstring \<times> 'j) list \<Rightarrow> ('w, 'j) sys
     \<Rightarrow> (jstring + 'j) \<times> ('w, 'j) sys" where
  "executeTool env toolName args s =
     (if toolName = js ''getWeatherData''
        then getCityWeatherReport env (map_of args (js ''city'')) s
      else if toolName = js ''getLoctionWiseUserData''
        then getLoctionWiseUserReport env (map_of args (js ''city'')) s
      else if toolName = js ''deleteUserlData''
        then deleteUserByEmail env (map_of args (js ''email'')) (map_of args (js ''token'')) s
      else (Inl (js ''Unknown tool: '' @ toolName), s))"

section \<open>parseToolCalls\<close>

text \<open>
  Regular expressions as far as the pattern needs them, with the semantics of a
  backtracking matcher: \<open>rx_results r s\<close> lists what is left of \<open>s\<close> after each way
  in which \<open>r\<close> matches a prefix of \<open>s\<close>, in the order in which the matcher tries
  them.  A greedy star tries one more iteration before it stops, a lazy star stops
  before it tries one more, and an iteration that consumes nothing is not repeated.
\<close>

datatype rx = Eps | Atom "jschar \<Rightarrow> bool" | Cat rx rx | Greedy rx | Lazy rx

fun rx_results :: "rx \<Rightarrow> jstring \<Rightarrow> jstring list" where
  "rx_results Eps s = [s]"
| "rx_results (Atom P) s = (case s of [] \<Rightarrow> [] | c # cs \<Rightarrow> if P c then [cs] else [])"
| "rx_results (Cat a b) s = concat (map (rx_results b) (rx_results a s))"
| "rx_results (Greedy a) s =
     concat (map (\<lambda>r. if length r < length s then rx_results (Greedy a) r else [])
               (rx_results a s)) @ [s]"
| "rx_results (Lazy a) s =
     s # concat (map (\<lambda>r. if length r < length s then rx_results (Lazy a) r else [])
               (rx_results a s))"

declare rx_results.simps [simp del]

fun literal :: "jstring \<Rightarrow> rx" where
  "literal [] = Eps"
| "literal (c # cs) = Cat (Atom (\<lambda>x. x = c)) (literal cs)"

definition first_match :: "'a list \<Rightarrow> 'a option" where
  "first_match xs = (case xs of [] \<Rightarrow> None | x # _ \<Rightarrow> Some x)"

text \<open>
  The pattern \<open>/TOOL_CALL:\s*(\w+)\s*\((.*?)\)/\<close> at the head of a string: all its
  matches in the order of the matcher, each with the two groups and the text after the
  match.  The match that \<open>exec\<close> reports is the first of them.
\<close>

definition pattern_matches :: "jstring \<Rightarrow> (jstring \<times> jstring \<times> jstring) list" where
  "pattern_matches s =
     [(take (length s1 - length s2) s1, take (length s3 - length s4) s3, rest).
        s1 \<leftarrow> rx_results (Cat (literal (js ''TOOL_CALL:'')) (Greedy (Atom isSpace))) s,
        s2 \<leftarrow> rx_results (Cat (Atom isWordChar) (Greedy (Atom isWordChar))) s1,
        s3 \<leftarrow> rx_results (Cat (Greedy (Atom isSpace)) (Atom (\<lambda>x. x = 0x28))) s2,
        s4 \<leftarrow> rx_results (Lazy (Atom (\<lambda>x. \<not> isLineTerminator x))) s3,
        rest \<leftarrow> rx_results (Atom (\<lambda>x. x = 0x29)) s4]"

text \<open>
  The same match computed directly (\<open>match_here_backtracking\<close> below proves that it is
  the same).  The classes \<open>\s\<close> and \<open>\w\<close> are disjoint and \<open>(\<close> is in neither, so each
  greedy quantifier takes its whole run and giving back a code unit can never let the
  next atom match; the lazy \<open>.*?\<close> stops at the first \<open>)\<close>, and fails when a line
  terminator comes before it.  The result is the two groups and the text after the
  match, where the next \<open>exec\<close> resumes (\<open>lastIndex\<close>).
\<close>

fun strip_prefix :: "jstring \<Rightarrow> jstring \<Rightarrow> jstring option" where
  "strip_prefix [] s = Some s"
| "strip_prefix (p # ps) [] = None"
| "strip_prefix (p # ps) (c # cs) = (if p = c then strip_prefix ps cs else None)"

definition match_here :: "jstring \<Rightarrow> (jstring \<times> jstring \<times> jstring) option" where
  "match_here s =
     (case strip_prefix (js ''TOOL_CALL:'') s of
        None \<Rightarrow> None
      | Some s1 \<Rightarrow>
          (let s2 = dropWhile isSpace s1;
               functionName = takeWhile isWordChar s2;
               s3 = dropWhile isSpace (dropWhile isWordChar s2)
           in if functionName = [] then None
              else (case s3 of
                      [] \<Rightarrow> None
                    | c # s4 \<Rightarrow>
                        if c \<noteq> 0x28 then None
                        else (let argsString = takeWhile (\<lambda>d. d \<noteq> 0x29 \<and> \<not> isLineTerminator d) s4
                              in case dropWhile (\<lambda>d. d \<noteq> 0x29 \<and> \<not> isLineTerminator d) s4 of
                                   [] \<Rightarrow> None
                                 | d # rest \<Rightarrow>
                                     if d = 0x29 then Some (functionName, argsString, rest)
                                     else None))))"

fun exec_from :: "jstring \<Rightarrow> (jstring \<times> jstring \<times> jstring) option" where
  "exec_from [] = match_here []"
| "exec_from (c # cs) =
     (case match_here (c # cs) of Some m \<Rightarrow> Some m | None \<Rightarrow> exec_from cs)"

function parse_loop ::
  "('w, 'j) env \<Rightarrow> jstring \<Rightarrow> 'j tool_call list \<Rightarrow> 'j tool_call list" where
  "parse_loop env content toolCalls =
     (case exec_from content of
        None \<Rightarrow> toolCalls
      | Some (functionName, argsString, rest) \<Rightarrow>
          (case JSON_parse env (js ''{'' @ argsString @ js ''}'') of
             Some args \<Rightarrow>
               parse_loop env rest (toolCalls @ [\<lparr>call_name = functionName, call_args = args\<rparr>])
           | None \<Rightarrow> parse_loop env rest toolCalls))"
  by pat_completeness auto
termination
proof (relation "measure (\<lambda>(env, content, toolCalls). length content)")
  have sp: "length r \<le> length s" if "strip_prefix p s = Some r" for p s r
    using that by (induction p s rule: strip_prefix.induct) (auto split: if_splits)
  have dw: "length d < Suc (length s)" if "dropWhile P s = c # d" for P and s :: jstring and c d
  proof -
    have "length (dropWhile P s) \<le> length s" by (rule length_dropWhile_le)
    with that show ?thesis by simp
  qed
  have mh: "length r < length s" if "match_here s = Some (n, a, r)" for s n a r
  proof -
    from that obtain s1 s4 where 1: "strip_prefix (js ''TOOL_CALL:'') s = Some s1"
      and 2: "dropWhile isSpace (dropWhile isWordChar (dropWhile isSpace s1)) = 0x28 # s4"
      and 3: "dropWhile (\<lambda>d. d \<noteq> 0x29 \<and> \<not> isLineTerminator d) s4 = 0x29 # r"
      by (auto simp: match_here_def Let_def split: option.splits list.splits if_splits)
    have "length r < Suc (length s4)" using 3 by (rule dw)
    moreover have "length (dropWhile isSpace (dropWhile isWordChar (dropWhile isSpace s1))) \<le> length s1"
      by (meson length_dropWhile_le order_trans)
    then have "Suc (length s4) \<le> length s1" using 2 by simp
    moreover have "length s1 \<le> length s" using 1 by (rule sp)
    ultimately show ?thesis by linarith
  qed
  have ex: "length r < length s" if "exec_from s = Some (n, a, r)" for s n a r
    using that
  proof (induction s)
    case Nil
    then show ?case using mh by fastforce
  next
    case (Cons c cs)
    then show ?case using mh [of "c # cs" n a r] by (auto split: option.splits)
  qed
  show "wf (measure (\<lambda>(env :: ('w, 'j) env, content, toolCalls :: 'j tool_call list). length content))" by simp
  show "\<And>env content toolCalls x2 x y x2a ya args.
       exec_from content = Some x2 \<Longrightarrow> (x, y) = x2 \<Longrightarrow> (x2a, ya) = y \<Longrightarrow>
       JSON_parse env (js ''{'' @ x2a @ js ''}'') = Some args \<Longrightarrow>
       ((env, ya, toolCalls @ [\<lparr>call_name = x, call_args = args\<rparr>]), (env :: ('w, 'j) env), content, toolCalls) \<in> measure (\<lambda>(env, content, toolCalls). length content)"
    using ex by auto
  show "\<And>env content toolCalls x2 x y x2a ya.
       exec_from content = Some x2 \<Longrightarrow> (x, y) = x2 \<Longrightarrow> (x2a, ya) = y \<Longrightarrow>
       JSON_parse env (js ''{'' @ x2a @ js ''}'') = None \<Longrightarrow>
       ((env, ya, toolCalls), (env :: ('w, 'j) env), content, toolCalls) \<in> measure (\<lambda>(env, content, toolCalls). length content)"
    using ex by auto
qed

declare parse_loop.simps [simp del]

definition parseToolCalls :: "('w, 'j) env \<Rightarrow> jstring \<Rightarrow> 'j tool_call list" where
  "parseToolCalls env content = parse_loop env content []"

section \<open>The model adapters\<close>

text \<open>The default \<open>conversationHistory = []\<close> of both adapters.\<close>

definition history_or_empty :: "turn list option \<Rightarrow> turn list" where
  "history_or_empty conversationHistory = (case conversationHistory of None \<Rightarrow> [] | Some h \<Rightarrow> h)"

definition callGeminiWithTools ::
  "('w, 'j) env \<Rightarrow> jstring \<Rightarrow> turn list option \<Rightarrow> ('w, 'j) sys
     \<Rightarrow> (jstring + 'j model_response) \<times> ('w, 'j) sys" where
  "callGeminiWithTools env userMessage conversationHistory s =
     (let cleanHistory = gemini_history userMessage (history_or_empty conversationHistory)
      in case gemini_send env cleanHistory userMessage (world s) of
           (r, w') \<Rightarrow>
             (let s' = \<lparr>world = w', trace = trace s @ [Called (GeminiChat cleanHistory userMessage)]\<rparr>
              in case r of
                   Inl m \<Rightarrow> (Inl (js ''Gemini API Error: '' @ m), s')
                 | Inr a \<Rightarrow>
                     (Inr \<lparr>resp_calls = (case ans_calls a of None \<Rightarrow> [] | Some cs \<Rightarrow> cs),
                           resp_text = ans_text a\<rparr>, s')))"

definition callOllama ::
  "('w, 'j) env \<Rightarrow> jstring \<Rightarrow> turn list option \<Rightarrow> jstring option \<Rightarrow> ('w, 'j) sys
     \<Rightarrow> (jstring + 'j model_response) \<times> ('w, 'j) sys" where
  "callOllama env userMessage conversationHistory systemPrompt s =
     (let messages = ollama_messages userMessage (history_or_empty conversationHistory) systemPrompt
      in case ollama_post env messages (world s) of
           (a, w') \<Rightarrow>
             (let s' = \<lparr>world = w', trace = trace s @ [Called (OllamaChat messages)]\<rparr>
              in case a of
                   FetchFailed m \<Rightarrow> (Inl (js ''Ollama API Error: '' @ m), s')
                 | NotOk st statusText \<Rightarrow>
                     (Inl (js ''Ollama API Error: '' @ js ''Ollama API error: '' @ st @ js '' ''
                             @ statusText), s')
                 | BodyInvalid m \<Rightarrow> (Inl (js ''Ollama API Error: '' @ m), s')
                 | Replied c \<Rightarrow>
                     (let content = (case c of None \<Rightarrow> [] | Some t \<Rightarrow> t)
                      in (Inr \<lparr>resp_calls = parseToolCalls env content, resp_text = content\<rparr>, s'))))"

definition systemPrompt_tools :: jstring where
  \<open>systemPrompt_tools = js (''You are a helpful AI assistant with access to the following tools:\<newline>\<newline>''
     @ ''1. getWeatherData(city) - Get weather information for a specific city\<newline>''
     @ ''2. getLoctionWiseUserData(city) - Get user data for a specific city  \<newline>''
     @ ''3. deleteUserlData(email, token) - Delete user by email and token\<newline>\<newline>''
     @ ''When you need to use a tool, format your response like this:\<newline>''
     @ ''TOOL_CALL: functionName("arg1": "value1", "arg2": "value2")\<newline>\<newline>''
     @ ''For example:\<newline>''
     @ ''TOOL_CALL: getWeatherData("city": "New York")\<newline>\<newline>''
     @ ''Always provide a natural language response along with any tool calls. ''
     @ ''If you don't need to use any tools, just respond normally.'')\<close>

definition callOllamaWithTools ::
  "('w, 'j) env \<Rightarrow> jstring \<Rightarrow> turn list option \<Rightarrow> ('w, 'j) sys
     \<Rightarrow> (jstring + 'j model_response) \<times> ('w, 'j) sys" where
  "callOllamaWithTools env userMessage conversationHistory s =
     callOllama env userMessage conversationHistory (Some systemPrompt_tools) s"

section \<open>The route POST /api/chat\<close>

record chat_request =
  message :: jstring
  conversation_history :: "turn list option"

text \<open>The follow-up call of each variant, made with the tool's result.\<close>

definition followUp_prompt :: "('w, 'j) env \<Rightarrow> jstring \<Rightarrow> 'j \<Rightarrow> jstring" where
  "followUp_prompt env functionName toolResult =
     js ''Based on the '' @ functionName @ js '' result: '' @ JSON_stringify env toolResult
       @ js '', provide a helpful response to the user.''"

definition gemini_followUp ::
  "('w, 'j) env \<Rightarrow> jstring \<Rightarrow> 'j \<Rightarrow> ('w, 'j) sys \<Rightarrow> (jstring + jstring) \<times> ('w, 'j) sys" where
  "gemini_followUp env functionName toolResult s =
     (let prompt = followUp_prompt env functionName toolResult
      in case gemini_generate env prompt (world s) of
           (r, w') \<Rightarrow> (r, \<lparr>world = w', trace = trace s @ [Called (GeminiGenerate prompt)]\<rparr>))"

definition ollama_followUp ::
  "('w, 'j) env \<Rightarrow> turn list option \<Rightarrow> jstring \<Rightarrow> 'j \<Rightarrow> ('w, 'j) sys
     \<Rightarrow> (jstring + jstring) \<times> ('w, 'j) sys" where
  "ollama_followUp env history functionName toolResult s =
     (case callOllama env (followUp_prompt env functionName toolResult) history None s of
        (Inl m, s') \<Rightarrow> (Inl m, s')
      | (Inr followUpResponse, s') \<Rightarrow> (Inr (resp_text followUpResponse), s'))"

text \<open>The \<open>catch (err)\<close> of one tool call.\<close>

definition tool_failed :: "jstring \<Rightarrow> jstring \<Rightarrow> ('w, 'j) sys \<Rightarrow> ('w, 'j) sys" where
  "tool_failed functionName err s =
     res_write (Content (js ''Error during '' @ functionName @ js '': '' @ err))
       (res_write (FunctionCall functionName None Failed None (Some err)) s)"

text \<open>The body of \<open>for (const functionCall of functionCalls)\<close>.\<close>

definition run_tool_call ::
  "(jstring \<Rightarrow> 'j \<Rightarrow> ('w, 'j) sys \<Rightarrow> (jstring + jstring) \<times> ('w, 'j) sys)
     \<Rightarrow> ('w, 'j) env \<Rightarrow> 'j tool_call \<Rightarrow> ('w, 'j) sys \<Rightarrow> ('w, 'j) sys" where
  "run_tool_call followUp env functionCall s =
     (let s1 = res_write (FunctionCall (call_name functionCall) (Some (call_args functionCall))
                            Executing None None) s
      in case executeTool env (call_name functionCall) (call_args functionCall) s1 of
           (Inl err, s2) \<Rightarrow> tool_failed (call_name functionCall) err s2
         | (Inr toolResult, s2) \<Rightarrow>
             (let s3 = res_write (FunctionCall (call_name functionCall)
                                    (Some (call_args functionCall)) Completed (Some toolResult) None) s2
              in case followUp (call_name functionCall) toolResult s3 of
                   (Inl err, s4) \<Rightarrow> tool_failed (call_name functionCall) err s4
                 | (Inr t, s4) \<Rightarrow> res_write (Content t) s4))"

fun tool_loop ::
  "(jstring \<Rightarrow> 'j \<Rightarrow> ('w, 'j) sys \<Rightarrow> (jstring + jstring) \<times> ('w, 'j) sys)
     \<Rightarrow> ('w, 'j) env \<Rightarrow> 'j tool_call list \<Rightarrow> ('w, 'j) sys \<Rightarrow> ('w, 'j) sys" where
  "tool_loop followUp env [] s = s"
| "tool_loop followUp env (functionCall # functionCalls) s =
     tool_loop followUp env functionCalls (run_tool_call followUp env functionCall s)"

text \<open>What follows the first model call, shared by the two variants of the route.\<close>

definition respond ::
  "(jstring \<Rightarrow> 'j \<Rightarrow> ('w, 'j) sys \<Rightarrow> (jstring + jstring) \<times> ('w, 'j) sys)
     \<Rightarrow> ('w, 'j) env \<Rightarrow> (jstring + 'j model_response) \<times> ('w, 'j) sys \<Rightarrow> ('w, 'j) sys" where
  "respond followUp env first =
     (case first of
        (Inl err, s) \<Rightarrow> res_end (res_write (ErrorFrame err) s)
      | (Inr response, s) \<Rightarrow>
          res_end (res_write Complete
            (if length (resp_calls response) > 0
             then tool_loop followUp env (resp_calls response) s
             else res_write (Content (resp_text response)) s)))"

definition chat_gemini :: "('w, 'j) env \<Rightarrow> chat_request \<Rightarrow> ('w, 'j) sys \<Rightarrow> ('w, 'j) sys" where
  "chat_gemini env req s =
     respond (gemini_followUp env) env
       (callGeminiWithTools env (message req) (conversation_history req)
          (res_write (Thinking (js ''Processing...'')) (emit Opened s)))"

definition chat_ollama :: "('w, 'j) env \<Rightarrow> chat_request \<Rightarrow> ('w, 'j) sys \<Rightarrow> ('w, 'j) sys" where
  "chat_ollama env req s =
     respond (ollama_followUp env (conversation_history req)) env
       (callOllamaWithTools env (message req) (conversation_history req)
          (res_write (Thinking (js ''Processing...'')) (emit Opened s)))"

definition start :: "'w \<Rightarrow> ('w, 'j) sys" where
  "start w = \<lparr>world = w, trace = []\<rparr>"

section \<open>The chat client\<close>

text \<open>
  \<open>sendMessage\<close> of the React client up to the request it posts: nothing is sent when
  the input is blank or a request is running; the body holds the input and
  \<open>messages.slice(-10)\<close>.
\<close>

record client =
  messages :: "turn list"
  inputValue :: jstring
  isLoading :: bool

definition slice_last :: "nat \<Rightarrow> 'a list \<Rightarrow> 'a list" where
  "slice_last n xs = drop (length xs - n) xs"

definition sendMessage :: "client \<Rightarrow> chat_request option" where
  "sendMessage c =
     (if trim (inputValue c) = [] \<or> isLoading c then None
      else Some \<lparr>message = inputValue c, conversation_history = Some (slice_last 10 (messages c))\<rparr>)"

section \<open>The user API: GET /deleteUser\<close>

record user =
  user_name :: "jstring option"
  user_gender :: "jstring option"
  user_email :: "jstring option"
  user_phone :: "jstring option"
  user_location :: "jstring option"

text \<open>
  A query parameter as Express parses it: missing, one string, or an array or object
  (a repeated or bracketed key).
\<close>

datatype qparam = Missing | Single jstring | Structured

record delete_query =
  q_email :: qparam
  q_token :: qparam

text \<open>\<open>deleteOne\<close> of the collection removes the first document that matches and
  reports how many it removed.\<close>

fun deleteOne :: "(user \<Rightarrow> bool) \<Rightarrow> user list \<Rightarrow> nat \<times> user list" where
  "deleteOne p [] = (0, [])"
| "deleteOne p (u # us) =
     (if p u then (1, us) else (case deleteOne p us of (n, us') \<Rightarrow> (n, u # us')))"

datatype api_reply = DeleteResult nat | MessageError

datatype api_failure = TypeError

text \<open>
  The handler, with \<open>String.prototype.toLowerCase\<close> as a parameter.  Reading
  \<open>toLowerCase\<close> of a parameter that is no string throws, and no response is sent.
\<close>

definition deleteUser ::
  "(jstring \<Rightarrow> jstring) \<Rightarrow> delete_query \<Rightarrow> user list \<Rightarrow> (api_failure + api_reply) \<times> user list" where
  "deleteUser toLowerCase query users =
     (if q_token query = Single (js ''1'')
      then (case q_email query of
              Single e \<Rightarrow>
                (case deleteOne (\<lambda>u. user_email u = Some (toLowerCase e)) users of
                   (n, users') \<Rightarrow> (Inr (DeleteResult n), users'))
            | _ \<Rightarrow> (Inl TypeError, users))
      else (Inr MessageError, users))"

section \<open>Reading a trace\<close>

text \<open>
  The frames that end a response, the events that may come before the last frame, and
  the tool calls announced by the \<open>executing\<close> frames of a frame sequence.
\<close>

definition terminal :: "'j frame \<Rightarrow> bool" where
  "terminal f = (case f of Complete \<Rightarrow> True | ErrorFrame m \<Rightarrow> True | _ \<Rightarrow> False)"

definition inner :: "'j event \<Rightarrow> bool" where
  "inner e = (case e of Wrote f \<Rightarrow> \<not> terminal f | Called r \<Rightarrow> True | _ \<Rightarrow> False)"

definition executing_of :: "'j frame list \<Rightarrow> (jstring \<times> (jstring \<times> 'j) list) list" where
  "executing_of fs =
     concat (map (\<lambda>f. case f of
                         FunctionCall n (Some a) Executing r e \<Rightarrow> [(n, a)]
                       | _ \<Rightarrow> []) fs)"

text \<open>A follow-up call that only adds outbound calls to the trace.\<close>

definition calls_only ::
  "(jstring \<Rightarrow> 'j \<Rightarrow> ('w, 'j) sys \<Rightarrow> (jstring + jstring) \<times> ('w, 'j) sys) \<Rightarrow> bool" where
  "calls_only followUp \<longleftrightarrow>
     (\<forall>n r s. \<exists>rs. trace (snd (followUp n r s)) = trace s @ map Called rs)"

section \<open>Stubbed collaborators\<close>

text \<open>
  Test doubles for the scenarios: a model that answers the first call with the given
  tool calls (Gemini) or the given text (Ollama) and every follow-up with a fixed
  sentence, a collaborator given as a function of the URL, and a \<open>JSON.parse\<close> that
  knows a few argument objects.  The world counts the outbound calls made so far.
\<close>

datatype json = JString jstring | JObject "(jstring \<times> json) list"

definition stub_parse :: "jstring \<Rightarrow> (jstring \<times> json) list option" where
  \<open>stub_parse = map_of
     [(js ''{"city": "Paris"}'', [(js ''city'', JString (js ''Paris''))]),
      (js ''{"city": "Kolkata"}'', [(js ''city'', JString (js ''Kolkata''))])]\<close>

text \<open>
  The conversion of a parsed JSON value to a string: a string is itself; an object
  with an own property \<open>toString\<close> (which, coming from JSON, is no function) has no
  primitive conversion; any other object reads \<open>[object Object]\<close>.
\<close>

definition stub_ToString :: "json \<Rightarrow> jstring + jstring" where
  "stub_ToString v =
     (case v of
        JString t \<Rightarrow> Inr t
      | JObject kvs \<Rightarrow>
          if js ''toString'' \<in> set (map fst kvs)
          then Inl (js ''Cannot convert object to primitive value'')
          else Inr (js ''[object Object]''))"

definition stub_env ::
  "json tool_call list \<Rightarrow> jstring \<Rightarrow> (jstring \<Rightarrow> jstring + json) \<Rightarrow> (nat, json) env" where
  "stub_env calls reply fetch =
     \<lparr>fetch_json = (\<lambda>url w. (fetch url, Suc w)),
      gemini_send = (\<lambda>history userMessage w. (Inr \<lparr>ans_calls = Some calls, ans_text = reply\<rparr>, Suc w)),
      gemini_generate = (\<lambda>prompt w. (Inr (js ''It is done.''), Suc w)),
      ollama_post = (\<lambda>msgs w. (Replied (Some (if w = 0 then reply else js ''It is done.'')), Suc w)),
      JSON_parse = stub_parse,
      JSON_stringify = (\<lambda>v. js ''[result]''),
      ToString = stub_ToString\<rparr>"

definition stub_fetch :: "jstring \<Rightarrow> jstring + json" where
  "stub_fetch url =
     (if url = js ''http://localhost:3000/getWeatherDetails?city=Kolkata''
      then Inr (JObject [(js ''temp'', JString (js ''37c''))])
      else Inl (js ''fetch failed''))"

text \<open>\<open>toLowerCase\<close> on the letters A to Z, enough for the addresses of the examples.\<close>

definition ascii_lower :: "jstring \<Rightarrow> jstring" where
  "ascii_lower t = map (\<lambda>c. if 0x41 \<le> c \<and> c \<le> 0x5A then c + 0x20 else c) t"

definition stub_turn :: "string \<Rightarrow> string \<Rightarrow> turn" where
  "stub_turn ty c = \<lparr>turn_type = Some (js ty), turn_content = Some (js c)\<rparr>"

definition stub_user :: "string \<Rightarrow> user" where
  "stub_user address =
     \<lparr>user_name = None, user_gender = None, user_email = Some (js address),
      user_phone = None, user_location = None\<rparr>"

section \<open>Unfolding bundles for evaluation\<close>

lemmas chars = js_def isSpace_def isWhiteSpace_def isLineTerminator_def isWordChar_def
lemmas turns = has_content_def content_of_def is_user_def trim_def history_or_empty_def
lemmas route = chat_gemini_def chat_ollama_def respond_def run_tool_call_def tool_failed_def
  gemini_followUp_def ollama_followUp_def followUp_prompt_def
  callGeminiWithTools_def callOllama_def callOllamaWithTools_def res_write_def res_end_def emit_def
  start_def history_or_empty_def Let_def
lemmas tools = executeTool_def getCityWeatherReport_def getLoctionWiseUserReport_def
  deleteUserByEmail_def http_get_json_def template_def

section \<open>Properties of the history normalisation\<close>

lemma clean_loop_subset: "set (clean_loop h i acc) \<subseteq> set acc \<union> set h"
proof (induction h i acc rule: clean_loop.induct)
  case (1 history i cleanHistory)
  show ?case
  proof (cases "i < length history")
    case True
    with 1 show ?thesis
      by (subst clean_loop.simps) (auto split: if_splits)
  next
    case False
    then show ?thesis by (subst clean_loop.simps) simp
  qed
qed

lemma clean_loop_single: "clean_loop [x] 0 [] = [x]"
  by (simp add: clean_loop.simps)

lemma clean_loop_distinct_adj:
  "distinct_adj (map g_role acc) \<Longrightarrow> (i = 0 \<longrightarrow> acc = []) \<Longrightarrow>
   (0 < i \<longrightarrow> acc \<noteq> [] \<and> g_role (last acc) = g_role (h ! (i - 1))) \<Longrightarrow>
   distinct_adj (map g_role (clean_loop h i acc))"
proof (induction h i acc rule: clean_loop.induct)
  case (1 history i cleanHistory)
  show ?case
  proof (cases "i < length history")
    case False
    then show ?thesis using "1.prems"(1) by (subst clean_loop.simps) simp
  next
    case True
    let ?acc = "if i = 0 \<or> g_role (history ! i) \<noteq> g_role (history ! (i - 1))
                then cleanHistory @ [history ! i] else cleanHistory"
    have a: "distinct_adj (map g_role ?acc)"
      using "1.prems" by (auto simp: distinct_adj_append_iff last_map)
    have b: "?acc \<noteq> [] \<and> g_role (last ?acc) = g_role (history ! i)"
      using "1.prems" by auto
    have "distinct_adj (map g_role (clean_loop history (i + 1) ?acc))"
      using "1.IH" [OF True a] b by simp
    then show ?thesis using True by (subst clean_loop.simps) simp
  qed
qed

lemma gemini_history_alternates: "distinct_adj (map g_role (gemini_history userMessage h))"
  unfolding gemini_history_def by (rule clean_loop_distinct_adj) simp_all

lemma trim_empty_iff: "trim c = [] \<longleftrightarrow> list_all isSpace c"
proof
  assume "trim c = []"
  then have all: "\<forall>x\<in>set (dropWhile isSpace c). isSpace x"
    by (simp add: trim_def dropWhile_eq_Nil_conv)
  have "dropWhile isSpace c = []"
  proof (rule ccontr)
    assume ne: "dropWhile isSpace c \<noteq> []"
    then have "\<not> isSpace (hd (dropWhile isSpace c))" by (rule hd_dropWhile)
    moreover have "hd (dropWhile isSpace c) \<in> set (dropWhile isSpace c)" using ne by simp
    ultimately show False using all by blast
  qed
  then show "list_all isSpace c" by (simp add: dropWhile_eq_Nil_conv list_all_iff)
next
  assume "list_all isSpace c"
  then have e: "dropWhile isSpace c = []" by (simp add: dropWhile_eq_Nil_conv list_all_iff)
  show "trim c = []" unfolding trim_def e by simp
qed

lemma has_content_iff:
  "has_content t \<longleftrightarrow> (\<exists>c. turn_content t = Some c \<and> \<not> list_all isSpace c)"
  by (auto simp: has_content_def trim_empty_iff split: option.splits)

lemma callGemini_trace:
  "trace (snd (callGeminiWithTools env m ho s)) =
     trace s @ [Called (GeminiChat (gemini_history m (history_or_empty ho)) m)]"
  by (simp add: callGeminiWithTools_def Let_def split: prod.splits sum.splits)

lemma callOllama_trace:
  "trace (snd (callOllama env m ho p s)) =
     trace s @ [Called (OllamaChat (ollama_messages m (history_or_empty ho) p))]"
  by (simp add: callOllama_def Let_def split: prod.splits ollama_answer.splits)

lemma systemPrompt_tools_nonempty: "systemPrompt_tools \<noteq> []"
  by (simp add: systemPrompt_tools_def js_def)

lemma gemini_history_synth:
  assumes "filter has_content h = [] \<or> \<not> is_user (hd (filter has_content h))"
  shows "gemini_history m h = [\<lparr>g_role = User, g_text = m\<rparr>]"
proof -
  have "ensure_first_user m (gemini_format h) = [\<lparr>g_role = User, g_text = m\<rparr>]"
    using assms
    by (cases "filter has_content h") (auto simp: ensure_first_user_def gemini_format_def)
  then show ?thesis by (simp add: gemini_history_def clean_loop_single)
qed

lemma gemini_format_filter: "gemini_format (filter has_content h) = gemini_format h"
  by (simp add: gemini_format_def)

lemma gemini_history_members:
  "g \<in> set (gemini_history m h) \<Longrightarrow>
     g = \<lparr>g_role = User, g_text = m\<rparr> \<or>
     (\<exists>t\<in>set h. has_content t \<and>
        g = \<lparr>g_role = (if is_user t then User else Model), g_text = content_of t\<rparr>)"
proof -
  assume "g \<in> set (gemini_history m h)"
  then have "g \<in> set (ensure_first_user m (gemini_format h))"
    using clean_loop_subset [of "ensure_first_user m (gemini_format h)" 0 "[]"]
    by (auto simp: gemini_history_def)
  then show ?thesis
    by (auto simp: ensure_first_user_def gemini_format_def split: if_splits)
qed

lemma blank_users_filter:
  assumes "\<forall>t\<in>set h. is_user t \<longrightarrow> \<not> has_content t"
  shows "filter has_content (filter (\<lambda>t. \<not> is_user t) h) = filter has_content h"
  using assms by (induction h) auto

text \<open>
  Claim C4, as amended.  In the Gemini adapter, when the history is empty once the
  blank turns are dropped, or when its first remaining turn is not a user turn, the
  request sent to the provider carries the one-turn history that holds the current
  message in the user role.  The Ollama adapter has no such check: its request carries
  the system prompt when there is one, every turn with content in its role, and the
  current message in the user role.
\<close>

theorem C4_gemini_first_turn_user:
  "(filter has_content (history_or_empty ho) = []
      \<or> \<not> is_user (hd (filter has_content (history_or_empty ho))) \<longrightarrow>
    trace (snd (callGeminiWithTools env userMessage ho s)) =
      trace s @ [Called (GeminiChat [\<lparr>g_role = User, g_text = userMessage\<rparr>] userMessage)])
   \<and> trace (snd (callOllama env userMessage ho p s)) =
      trace s @ [Called (OllamaChat
        ((case p of None \<Rightarrow> [] | Some q \<Rightarrow> if q = [] then [] else [\<lparr>o_role = System, o_content = q\<rparr>])
         @ map (\<lambda>t. \<lparr>o_role = (if is_user t then User else Assistant), o_content = content_of t\<rparr>)
             (filter has_content (history_or_empty ho))
         @ [\<lparr>o_role = User, o_content = userMessage\<rparr>]))]"
  by (simp add: callGemini_trace gemini_history_synth callOllama_trace ollama_messages_def)

theorem C4_gemini_first_turn_user_witness:
  "trace (snd (callGeminiWithTools (stub_env [] (js ''Hi'') stub_fetch) (js ''now'')
        (Some [stub_turn ''assistant'' ''hello'', stub_turn ''user'' ''q1'']) (start 0))) =
     [Called (GeminiChat [\<lparr>g_role = User, g_text = js ''now''\<rparr>] (js ''now''))]
   \<and> trace (snd (callOllama (stub_env [] (js ''Hi'') stub_fetch) (js ''now'')
        (Some [stub_turn ''assistant'' ''hello'', stub_turn ''user'' ''q1'']) None (start 0))) =
     [Called (OllamaChat [\<lparr>o_role = Assistant, o_content = js ''hello''\<rparr>,
                          \<lparr>o_role = User, o_content = js ''q1''\<rparr>,
                          \<lparr>o_role = User, o_content = js ''now''\<rparr>])]"
proof -
  let ?h = "Some [stub_turn ''assistant'' ''hello'', stub_turn ''user'' ''q1'']"
  have kept: "filter has_content (history_or_empty ?h) =
      [stub_turn ''assistant'' ''hello'', stub_turn ''user'' ''q1'']"
    by (simp add: stub_turn_def turns chars)
  have first: "\<not> is_user (stub_turn ''assistant'' ''hello'')"
    by (simp add: stub_turn_def turns chars)
  have h: "filter has_content (history_or_empty ?h) = []
      \<or> \<not> is_user (hd (filter has_content (history_or_empty ?h)))"
    unfolding kept using first by simp
  have u: "is_user (stub_turn ''user'' ''q1'')"
    by (simp add: stub_turn_def turns chars)
  have c: "content_of (stub_turn ''assistant'' ''hello'') = js ''hello''"
    "content_of (stub_turn ''user'' ''q1'') = js ''q1''"
    by (simp_all add: stub_turn_def content_of_def)
  show ?thesis
    using h C4_gemini_first_turn_user [of ?h "stub_env [] (js ''Hi'') stub_fetch" "js ''now''" "start 0" None]
    unfolding kept by (simp add: start_def first u c)
qed

text \<open>
  Claim C4 as stated fails on the Ollama adapter: a history that starts with an
  assistant turn is forwarded as it is, between the system prompt and the current
  message.
\<close>

theorem C4_counterexample:
  "\<not> is_user \<lparr>turn_type = Some (js ''assistant''), turn_content = Some (js ''hello'')\<rparr> \<and>
   ollama_messages (js ''now'')
      [\<lparr>turn_type = Some (js ''assistant''), turn_content = Some (js ''hello'')\<rparr>]
      (Some systemPrompt_tools) =
     [\<lparr>o_role = System, o_content = systemPrompt_tools\<rparr>,
      \<lparr>o_role = Assistant, o_content = js ''hello''\<rparr>,
      \<lparr>o_role = User, o_content = js ''now''\<rparr>]"
  by (simp add: ollama_messages_def systemPrompt_tools_nonempty is_user_def has_content_def
      content_of_def trim_def isSpace_def isWhiteSpace_def isLineTerminator_def js_def)

text \<open>
  Claim C5, as amended.  The history that the Gemini adapter sends never holds two
  adjacent turns of the same role.  The Ollama adapter does not collapse repeated roles:
  the roles of the messages it sends are those of the turns with content, one for one,
  followed by the user role of the current message.
\<close>

theorem C5_gemini_history_alternates:
  "trace (snd (callGeminiWithTools env userMessage ho s)) =
     trace s @ [Called (GeminiChat (gemini_history userMessage (history_or_empty ho)) userMessage)]
   \<and> distinct_adj (map g_role (gemini_history userMessage (history_or_empty ho)))
   \<and> trace (snd (callOllama env userMessage ho p s)) =
     trace s @ [Called (OllamaChat (ollama_messages userMessage (history_or_empty ho) p))]
   \<and> map o_role (ollama_messages userMessage (history_or_empty ho) None) =
     map (\<lambda>t. if is_user t then User else Assistant) (filter has_content (history_or_empty ho))
       @ [User]"
  by (simp add: callGemini_trace gemini_history_alternates callOllama_trace ollama_messages_def
      comp_def)

theorem C5_gemini_history_alternates_witness:
  "gemini_history (js ''now'') (history_or_empty (Some
      [stub_turn ''user'' ''a'', stub_turn ''user'' ''b'', stub_turn ''assistant'' ''c''])) =
     [\<lparr>g_role = User, g_text = js ''a''\<rparr>, \<lparr>g_role = Model, g_text = js ''c''\<rparr>]
   \<and> distinct_adj (map g_role (gemini_history (js ''now'') (history_or_empty (Some
      [stub_turn ''user'' ''a'', stub_turn ''user'' ''b'', stub_turn ''assistant'' ''c'']))))
   \<and> map o_role (ollama_messages (js ''now'') (history_or_empty (Some
      [stub_turn ''user'' ''a'', stub_turn ''user'' ''b'', stub_turn ''assistant'' ''c''])) None) =
     [User, User, Assistant, User]"
proof -
  let ?h = "Some [stub_turn ''user'' ''a'', stub_turn ''user'' ''b'', stub_turn ''assistant'' ''c'']"
  have g: "gemini_history (js ''now'') (history_or_empty ?h) =
     [\<lparr>g_role = User, g_text = js ''a''\<rparr>, \<lparr>g_role = Model, g_text = js ''c''\<rparr>]"
    by (simp add: gemini_history_def ensure_first_user_def gemini_format_def clean_loop.simps
        stub_turn_def turns chars)
  have kept: "filter has_content (history_or_empty ?h) =
      [stub_turn ''user'' ''a'', stub_turn ''user'' ''b'', stub_turn ''assistant'' ''c'']"
    by (simp add: stub_turn_def turns chars)
  have roles: "is_user (stub_turn ''user'' ''a'')" "is_user (stub_turn ''user'' ''b'')"
    "\<not> is_user (stub_turn ''assistant'' ''c'')"
    by (simp_all add: stub_turn_def turns chars)
  show ?thesis
    using g C5_gemini_history_alternates [of "stub_env [] [] stub_fetch" "js ''now''" ?h "start 0" None]
    unfolding kept by (simp add: roles)
qed

text \<open>
  Claim C5 as stated fails on the Ollama adapter: two consecutive user turns of the
  history are both forwarded, next to each other.
\<close>

theorem C5_counterexample:
  "\<not> distinct_adj (map o_role (ollama_messages (js ''now'')
      [\<lparr>turn_type = Some (js ''user''), turn_content = Some (js ''a'')\<rparr>,
       \<lparr>turn_type = Some (js ''user''), turn_content = Some (js ''b'')\<rparr>,
       \<lparr>turn_type = Some (js ''assistant''), turn_content = Some (js ''c'')\<rparr>]
      (Some systemPrompt_tools)))"
  by (simp add: ollama_messages_def systemPrompt_tools_nonempty is_user_def has_content_def
      content_of_def trim_def isSpace_def isWhiteSpace_def isLineTerminator_def js_def)

text \<open>
  Claim C10.  In both adapters a turn whose content is missing, empty or made of white
  space only is dropped by the filter before anything else looks at the history: the
  history sent is the one computed from the filtered turns, every forwarded turn comes
  from a turn with content (or is the synthetic user turn, the system prompt or the
  current message), and a history whose user turns are all blank is treated as the same
  history without its user turns; the Gemini adapter then sends the synthetic user turn.
\<close>

theorem C10_blank_turns_dropped:
  "(\<not> has_content t \<longleftrightarrow>
      turn_content t = None \<or> (\<exists>c. turn_content t = Some c \<and> list_all isSpace c))
   \<and> gemini_history m h = gemini_history m (filter has_content h)
   \<and> ollama_messages m h p = ollama_messages m (filter has_content h) p
   \<and> (\<forall>g\<in>set (gemini_history m h).
         g = \<lparr>g_role = User, g_text = m\<rparr> \<or>
         (\<exists>t\<in>set h. has_content t \<and>
            g = \<lparr>g_role = (if is_user t then User else Model), g_text = content_of t\<rparr>))
   \<and> (\<forall>x\<in>set (ollama_messages m h p).
         o_role x = System \<or> x = \<lparr>o_role = User, o_content = m\<rparr> \<or>
         (\<exists>t\<in>set h. has_content t \<and>
            x = \<lparr>o_role = (if is_user t then User else Assistant), o_content = content_of t\<rparr>))
   \<and> ((\<forall>t\<in>set h. is_user t \<longrightarrow> \<not> has_content t) \<longrightarrow>
         gemini_history m h = gemini_history m (filter (\<lambda>t. \<not> is_user t) h)
         \<and> gemini_history m h = [\<lparr>g_role = User, g_text = m\<rparr>]
         \<and> ollama_messages m h p = ollama_messages m (filter (\<lambda>t. \<not> is_user t) h) p)"
proof -
  have 1: "\<not> has_content t \<longleftrightarrow>
      turn_content t = None \<or> (\<exists>c. turn_content t = Some c \<and> list_all isSpace c)"
    by (cases "turn_content t") (auto simp: has_content_iff)
  have 2: "gemini_history m h = gemini_history m (filter has_content h)"
    by (simp add: gemini_history_def gemini_format_filter)
  have 3: "ollama_messages m h p = ollama_messages m (filter has_content h) p"
    by (simp add: ollama_messages_def)
  have 4: "\<forall>g\<in>set (gemini_history m h).
         g = \<lparr>g_role = User, g_text = m\<rparr> \<or>
         (\<exists>t\<in>set h. has_content t \<and>
            g = \<lparr>g_role = (if is_user t then User else Model), g_text = content_of t\<rparr>)"
    using gemini_history_members by blast
  have 5: "\<forall>x\<in>set (ollama_messages m h p).
         o_role x = System \<or> x = \<lparr>o_role = User, o_content = m\<rparr> \<or>
         (\<exists>t\<in>set h. has_content t \<and>
            x = \<lparr>o_role = (if is_user t then User else Assistant), o_content = content_of t\<rparr>)"
    by (auto simp: ollama_messages_def split: option.splits if_splits)
  have 6: "gemini_history m h = gemini_history m (filter (\<lambda>t. \<not> is_user t) h)
         \<and> gemini_history m h = [\<lparr>g_role = User, g_text = m\<rparr>]
         \<and> ollama_messages m h p = ollama_messages m (filter (\<lambda>t. \<not> is_user t) h) p"
    if blank: "\<forall>t\<in>set h. is_user t \<longrightarrow> \<not> has_content t"
  proof -
    have f: "filter has_content (filter (\<lambda>t. \<not> is_user t) h) = filter has_content h"
      using blank by (rule blank_users_filter)
    have a: "gemini_history m h = gemini_history m (filter (\<lambda>t. \<not> is_user t) h)"
      by (simp only: gemini_history_def gemini_format_def f)
    have "filter has_content h = [] \<or> \<not> is_user (hd (filter has_content h))"
    proof (cases "filter has_content h")
      case Nil then show ?thesis by simp
    next
      case (Cons x xs)
      then have "x \<in> set (filter has_content h)" by simp
      then have "x \<in> set h" "has_content x" by auto
      with blank have "\<not> is_user x" by blast
      with Cons show ?thesis by simp
    qed
    then have b: "gemini_history m h = [\<lparr>g_role = User, g_text = m\<rparr>]"
      by (rule gemini_history_synth)
    have c: "ollama_messages m h p = ollama_messages m (filter (\<lambda>t. \<not> is_user t) h) p"
      by (simp only: ollama_messages_def f)
    from a b c show ?thesis by simp
  qed
  from 1 2 3 4 5 6 show ?thesis by blast
qed

theorem C10_blank_turns_dropped_witness:
  "\<not> has_content \<lparr>turn_type = Some (js ''user''), turn_content = Some (js ''  '')\<rparr>
   \<and> \<not> has_content \<lparr>turn_type = Some (js ''user''), turn_content = None\<rparr>
   \<and> gemini_history (js ''now'')
        [\<lparr>turn_type = Some (js ''user''), turn_content = Some (js ''  '')\<rparr>,
         \<lparr>turn_type = Some (js ''assistant''), turn_content = Some (js ''hi'')\<rparr>,
         \<lparr>turn_type = Some (js ''user''), turn_content = None\<rparr>] =
       [\<lparr>g_role = User, g_text = js ''now''\<rparr>]
   \<and> ollama_messages (js ''now'')
        [\<lparr>turn_type = Some (js ''user''), turn_content = Some (js ''  '')\<rparr>,
         \<lparr>turn_type = Some (js ''assistant''), turn_content = Some (js ''hi'')\<rparr>,
         \<lparr>turn_type = Some (js ''user''), turn_content = None\<rparr>] None =
       ollama_messages (js ''now'')
        [\<lparr>turn_type = Some (js ''assistant''), turn_content = Some (js ''hi'')\<rparr>] None"
proof -
  have blank: "\<not> has_content \<lparr>turn_type = Some (js ''user''), turn_content = Some (js ''  '')\<rparr>"
    "\<not> has_content \<lparr>turn_type = Some (js ''user''), turn_content = None\<rparr>"
    by (simp_all add: turns chars)
  have h: "\<forall>t\<in>set [\<lparr>turn_type = Some (js ''user''), turn_content = Some (js ''  '')\<rparr>,
              \<lparr>turn_type = Some (js ''assistant''), turn_content = Some (js ''hi'')\<rparr>,
              \<lparr>turn_type = Some (js ''user''), turn_content = None\<rparr>].
      is_user t \<longrightarrow> \<not> has_content t"
    by (simp add: turns chars)
  have f: "filter (\<lambda>t. \<not> is_user t)
        [\<lparr>turn_type = Some (js ''user''), turn_content = Some (js ''  '')\<rparr>,
         \<lparr>turn_type = Some (js ''assistant''), turn_content = Some (js ''hi'')\<rparr>,
         \<lparr>turn_type = Some (js ''user''), turn_content = None\<rparr>] =
        [\<lparr>turn_type = Some (js ''assistant''), turn_content = Some (js ''hi'')\<rparr>]"
    by (simp add: turns chars)
  show ?thesis
    using blank h C10_blank_turns_dropped [of _ "js ''now''"
        "[\<lparr>turn_type = Some (js ''user''), turn_content = Some (js ''  '')\<rparr>,
          \<lparr>turn_type = Some (js ''assistant''), turn_content = Some (js ''hi'')\<rparr>,
          \<lparr>turn_type = Some (js ''user''), turn_content = None\<rparr>]" None]
    unfolding f by blast
qed

section \<open>Properties of the tool executor\<close>




section \<open>Properties of the user API\<close>

lemma deleteOne_removes_first:
  "deleteOne p us =
     (if \<exists>u\<in>set us. p u then 1 else 0,
      takeWhile (\<lambda>u. \<not> p u) us @ drop 1 (dropWhile (\<lambda>u. \<not> p u) us))"
  by (induction us) (auto split: prod.splits)

text \<open>
  Claim C9.  A request to \<open>/deleteUser\<close> whose token is not the string \<open>1\<close> is answered
  with \<open>{message: "error"}\<close> and leaves the users as they are; the users change only
  when the token is \<open>1\<close>, and then the first user whose email equals the lowercased
  address is the one removed.
\<close>

theorem C9_deleteUser_token:
  "(q_token query \<noteq> Single (js ''1'') \<longrightarrow>
      deleteUser toLowerCase query users = (Inr MessageError, users))
   \<and> (snd (deleteUser toLowerCase query users) \<noteq> users \<longrightarrow> q_token query = Single (js ''1''))
   \<and> (q_token query = Single (js ''1'') \<and> q_email query = Single e \<longrightarrow>
      deleteUser toLowerCase query users =
        (Inr (DeleteResult (if \<exists>u\<in>set users. user_email u = Some (toLowerCase e) then 1 else 0)),
         takeWhile (\<lambda>u. user_email u \<noteq> Some (toLowerCase e)) users
           @ drop 1 (dropWhile (\<lambda>u. user_email u \<noteq> Some (toLowerCase e)) users)))"
  by (auto simp: deleteUser_def deleteOne_removes_first split: qparam.splits)

theorem C9_deleteUser_token_witness:
  "deleteUser ascii_lower \<lparr>q_email = Single (js ''B@x.io''), q_token = Single (js ''2'')\<rparr>
      [stub_user ''a@x.io'', stub_user ''b@x.io''] =
     (Inr MessageError, [stub_user ''a@x.io'', stub_user ''b@x.io''])
   \<and> deleteUser ascii_lower \<lparr>q_email = Single (js ''B@x.io''), q_token = Single (js ''1'')\<rparr>
      [stub_user ''a@x.io'', stub_user ''b@x.io''] =
     (Inr (DeleteResult 1), [stub_user ''a@x.io''])"
proof -
  have t: "Single (js ''2'') \<noteq> Single (js ''1'')" by (simp add: js_def)
  have l: "ascii_lower (js ''B@x.io'') = js ''b@x.io''" by (simp add: ascii_lower_def js_def)
  have n: "js ''a@x.io'' \<noteq> js ''b@x.io''" by (simp add: js_def)
  show ?thesis
    using t n
      C9_deleteUser_token [of "\<lparr>q_email = Single (js ''B@x.io''), q_token = Single (js ''2'')\<rparr>"
        ascii_lower "[stub_user ''a@x.io'', stub_user ''b@x.io'']"]
      C9_deleteUser_token [of "\<lparr>q_email = Single (js ''B@x.io''), q_token = Single (js ''1'')\<rparr>"
        ascii_lower "[stub_user ''a@x.io'', stub_user ''b@x.io'']" "js ''B@x.io''"]
    by (simp add: l stub_user_def)
qed

section \<open>Properties of the chat route\<close>

lemma frames_of_append [simp]: "frames_of (xs @ ys) = frames_of xs @ frames_of ys"
  by (simp add: frames_of_def)

lemma frames_of_simps [simp]:
  "frames_of [] = []"
  "frames_of (Wrote f # es) = f # frames_of es"
  "frames_of (Called r # es) = frames_of es"
  "frames_of (Opened # es) = frames_of es"
  "frames_of (Ended # es) = frames_of es"
  by (simp_all add: frames_of_def)

lemma executing_of_append [simp]: "executing_of (xs @ ys) = executing_of xs @ executing_of ys"
  by (simp add: executing_of_def)

lemma executing_of_simps [simp]:
  "executing_of [] = []"
  "executing_of (FunctionCall n (Some a) Executing r e # fs) = (n, a) # executing_of fs"
  "executing_of (FunctionCall n x Completed r e # fs) = executing_of fs"
  "executing_of (FunctionCall n x Failed r e # fs) = executing_of fs"
  "executing_of (Content t # fs) = executing_of fs"
  by (simp_all add: executing_of_def split: option.splits)

lemma executeTool_trace:
  "\<exists>rs. trace (snd (executeTool env n a s)) = trace s @ map Called rs \<and> length rs \<le> 1"
proof -
  have "\<exists>rs. trace (snd (http_get_json env url s)) = trace s @ map Called rs \<and> length rs \<le> 1"
    for url
    by (rule exI [of _ "[HttpGet url]"]) (simp add: http_get_json_def split: prod.splits)
  moreover have "\<exists>rs. trace s = trace s @ map Called rs \<and> length rs \<le> 1"
    by (rule exI [of _ "[]"]) simp
  ultimately show ?thesis
    by (simp add: executeTool_def getCityWeatherReport_def getLoctionWiseUserReport_def
        deleteUserByEmail_def split: sum.splits)
qed

lemma gemini_followUp_trace:
  "\<exists>rs. trace (snd (gemini_followUp env n r s)) = trace s @ map Called rs"
  by (rule exI [of _ "[GeminiGenerate (followUp_prompt env n r)]"])
     (simp add: gemini_followUp_def Let_def split: prod.splits)

lemma ollama_followUp_trace:
  "\<exists>rs. trace (snd (ollama_followUp env h n r s)) = trace s @ map Called rs"
proof -
  have "snd (ollama_followUp env h n r s) = snd (callOllama env (followUp_prompt env n r) h None s)"
    by (simp add: ollama_followUp_def split: prod.splits sum.splits)
  then show ?thesis
    by (intro exI [of _ "[OllamaChat (ollama_messages (followUp_prompt env n r)
          (history_or_empty h) None)]"]) (simp add: callOllama_trace)
qed

text \<open>The frames of one pass through the loop body.\<close>

lemma run_tool_call_frames:
  assumes fu: "calls_only followUp"
  shows "frames_of (trace (run_tool_call followUp env fc s)) =
     frames_of (trace s) @
     FunctionCall (call_name fc) (Some (call_args fc)) Executing None None #
     (case fst (executeTool env (call_name fc) (call_args fc)
             (res_write (FunctionCall (call_name fc) (Some (call_args fc)) Executing None None) s)) of
        Inl err \<Rightarrow>
          [FunctionCall (call_name fc) None Failed None (Some err),
           Content (js ''Error during '' @ call_name fc @ js '': '' @ err)]
      | Inr toolResult \<Rightarrow>
          FunctionCall (call_name fc) (Some (call_args fc)) Completed (Some toolResult) None #
          (case fst (followUp (call_name fc) toolResult
                  (res_write (FunctionCall (call_name fc) (Some (call_args fc)) Completed
                     (Some toolResult) None)
                    (snd (executeTool env (call_name fc) (call_args fc)
                       (res_write (FunctionCall (call_name fc) (Some (call_args fc)) Executing
                          None None) s))))) of
             Inl err \<Rightarrow>
               [FunctionCall (call_name fc) None Failed None (Some err),
                Content (js ''Error during '' @ call_name fc @ js '': '' @ err)]
           | Inr t \<Rightarrow> [Content t]))"
proof -
  let ?s1 = "res_write (FunctionCall (call_name fc) (Some (call_args fc)) Executing None None) s"
  obtain r1 s2 where e: "executeTool env (call_name fc) (call_args fc) ?s1 = (r1, s2)"
    by (cases "executeTool env (call_name fc) (call_args fc) ?s1")
  obtain rs where t2: "trace s2 = trace ?s1 @ map Called rs"
    using executeTool_trace [of env "call_name fc" "call_args fc" ?s1] e by auto
  have f2: "frames_of (trace s2) =
      frames_of (trace s) @ [FunctionCall (call_name fc) (Some (call_args fc)) Executing None None]"
    unfolding t2 by (induction rs) (simp_all add: res_write_def emit_def)
  show ?thesis
  proof (cases r1)
    case (Inl err)
    then show ?thesis
      using e f2 by (simp add: run_tool_call_def Let_def tool_failed_def res_write_def emit_def)
  next
    case (Inr toolResult)
    let ?s3 = "res_write (FunctionCall (call_name fc) (Some (call_args fc)) Completed
                 (Some toolResult) None) s2"
    obtain r3 s4 where f: "followUp (call_name fc) toolResult ?s3 = (r3, s4)"
      by (cases "followUp (call_name fc) toolResult ?s3")
    obtain rs' where t4: "trace s4 = trace ?s3 @ map Called rs'"
      using fu f unfolding calls_only_def by (metis snd_conv)
    have f4: "frames_of (trace s4) = frames_of (trace s2) @
        [FunctionCall (call_name fc) (Some (call_args fc)) Completed (Some toolResult) None]"
      unfolding t4 by (induction rs') (simp_all add: res_write_def emit_def)
    show ?thesis
      using e Inr f f2 f4
      by (cases r3)
         (simp_all add: run_tool_call_def Let_def tool_failed_def res_write_def emit_def)
  qed
qed

lemma tool_loop_append:
  "tool_loop followUp env (xs @ ys) s = tool_loop followUp env ys (tool_loop followUp env xs s)"
  by (induction xs arbitrary: s) simp_all

lemma list_all_inner_Called [simp]: "list_all inner (map Called rs)"
  by (induction rs) (simp_all add: inner_def)

lemma inner_simps [simp]:
  "inner (Called r)"
  "inner (Wrote (FunctionCall n a st res err))"
  "inner (Wrote (Content t))"
  "inner (Wrote (Thinking t))"
  "\<not> inner (Wrote Complete)"
  "\<not> inner (Wrote (ErrorFrame m))"
  "\<not> inner Ended"
  "\<not> inner Opened"
  by (simp_all add: inner_def terminal_def)

lemma run_tool_call_inner:
  assumes fu: "calls_only followUp"
  shows "\<exists>es. trace (run_tool_call followUp env fc s) = trace s @ es \<and> list_all inner es"
proof -
  let ?s1 = "res_write (FunctionCall (call_name fc) (Some (call_args fc)) Executing None None) s"
  obtain r1 s2 where e: "executeTool env (call_name fc) (call_args fc) ?s1 = (r1, s2)"
    by (cases "executeTool env (call_name fc) (call_args fc) ?s1")
  obtain rs where t2: "trace s2 = trace ?s1 @ map Called rs"
    using executeTool_trace [of env "call_name fc" "call_args fc" ?s1] e by auto
  show ?thesis
  proof (cases r1)
    case (Inl err)
    have "trace (run_tool_call followUp env fc s) = trace s @
        (Wrote (FunctionCall (call_name fc) (Some (call_args fc)) Executing None None)
           # map Called rs
         @ [Wrote (FunctionCall (call_name fc) None Failed None (Some err)),
            Wrote (Content (js ''Error during '' @ call_name fc @ js '': '' @ err))])"
      using e Inl t2 by (simp add: run_tool_call_def Let_def tool_failed_def res_write_def emit_def)
    then show ?thesis by (intro exI conjI) (assumption, simp)
  next
    case (Inr toolResult)
    let ?s3 = "res_write (FunctionCall (call_name fc) (Some (call_args fc)) Completed
                 (Some toolResult) None) s2"
    obtain r3 s4 where f: "followUp (call_name fc) toolResult ?s3 = (r3, s4)"
      by (cases "followUp (call_name fc) toolResult ?s3")
    obtain rs' where t4: "trace s4 = trace ?s3 @ map Called rs'"
      using fu f unfolding calls_only_def by (metis snd_conv)
    show ?thesis
    proof (cases r3)
      case (Inl err)
      have "trace (run_tool_call followUp env fc s) = trace s @
          (Wrote (FunctionCall (call_name fc) (Some (call_args fc)) Executing None None)
             # map Called rs
           @ Wrote (FunctionCall (call_name fc) (Some (call_args fc)) Completed
                      (Some toolResult) None)
             # map Called rs'
           @ [Wrote (FunctionCall (call_name fc) None Failed None (Some err)),
              Wrote (Content (js ''Error during '' @ call_name fc @ js '': '' @ err))])"
        using e \<open>r1 = Inr toolResult\<close> f Inl t2 t4
        by (simp add: run_tool_call_def Let_def tool_failed_def res_write_def emit_def)
      then show ?thesis by (intro exI conjI) (assumption, simp)
    next
      case (Inr t)
      have "trace (run_tool_call followUp env fc s) = trace s @
          (Wrote (FunctionCall (call_name fc) (Some (call_args fc)) Executing None None)
             # map Called rs
           @ Wrote (FunctionCall (call_name fc) (Some (call_args fc)) Completed
                      (Some toolResult) None)
             # map Called rs'
           @ [Wrote (Content t)])"
        using e \<open>r1 = Inr toolResult\<close> f Inr t2 t4
        by (simp add: run_tool_call_def Let_def tool_failed_def res_write_def emit_def)
      then show ?thesis by (intro exI conjI) (assumption, simp)
    qed
  qed
qed

lemma tool_loop_inner:
  assumes fu: "calls_only followUp"
  shows "\<exists>es. trace (tool_loop followUp env calls s) = trace s @ es \<and> list_all inner es"
proof (induction calls arbitrary: s)
  case Nil
  show ?case by simp
next
  case (Cons fc calls)
  obtain es where 1: "trace (run_tool_call followUp env fc s) = trace s @ es" "list_all inner es"
    using run_tool_call_inner [OF fu, of env fc s] by auto
  obtain es' where 2: "trace (tool_loop followUp env calls (run_tool_call followUp env fc s)) =
      trace (run_tool_call followUp env fc s) @ es'" "list_all inner es'"
    using Cons.IH [of "run_tool_call followUp env fc s"] by auto
  have "trace (tool_loop followUp env (fc # calls) s) = trace s @ (es @ es')"
    using 1 2 by simp
  moreover have "list_all inner (es @ es')" using 1 2 by simp
  ultimately show ?case by blast
qed

lemma run_tool_call_executing:
  assumes fu: "calls_only followUp"
  shows "executing_of (frames_of (trace (run_tool_call followUp env fc s))) =
     executing_of (frames_of (trace s)) @ [(call_name fc, call_args fc)]"
  unfolding run_tool_call_frames [OF fu]
  by (simp split: sum.splits)

lemma tool_loop_executing:
  assumes fu: "calls_only followUp"
  shows "executing_of (frames_of (trace (tool_loop followUp env calls s))) =
     executing_of (frames_of (trace s)) @ map (\<lambda>c. (call_name c, call_args c)) calls"
  by (induction calls arbitrary: s) (simp_all add: run_tool_call_executing [OF fu])

lemma tool_loop_frames_prefix:
  assumes fu: "calls_only followUp"
  shows "\<exists>fs. frames_of (trace (tool_loop followUp env calls s)) = frames_of (trace s) @ fs"
  using tool_loop_inner [OF fu, of env calls s] by auto

text \<open>A failing tool call in the middle of the queue.\<close>

lemma tool_loop_failure:
  assumes fu: "calls_only followUp"
    and fail: "fst (executeTool env (call_name fc) (call_args fc)
        (res_write (FunctionCall (call_name fc) (Some (call_args fc)) Executing None None)
           (tool_loop followUp env pre s))) = Inl err"
  shows "\<exists>rest.
     frames_of (trace (tool_loop followUp env (pre @ fc # post) s)) =
       frames_of (trace (tool_loop followUp env pre s))
       @ [FunctionCall (call_name fc) (Some (call_args fc)) Executing None None,
          FunctionCall (call_name fc) None Failed None (Some err),
          Content (js ''Error during '' @ call_name fc @ js '': '' @ err)]
       @ rest
     \<and> executing_of rest = map (\<lambda>c. (call_name c, call_args c)) post"
proof -
  let ?s1 = "tool_loop followUp env pre s"
  let ?s2 = "run_tool_call followUp env fc ?s1"
  let ?block = "[FunctionCall (call_name fc) (Some (call_args fc)) Executing None None,
          FunctionCall (call_name fc) None Failed None (Some err),
          Content (js ''Error during '' @ call_name fc @ js '': '' @ err)]"
  have a: "frames_of (trace ?s2) = frames_of (trace ?s1) @ ?block"
    unfolding run_tool_call_frames [OF fu] using fail by simp
  have b: "tool_loop followUp env (pre @ fc # post) s = tool_loop followUp env post ?s2"
    by (simp add: tool_loop_append)
  obtain rest where c: "frames_of (trace (tool_loop followUp env post ?s2)) =
      frames_of (trace ?s2) @ rest"
    using tool_loop_frames_prefix [OF fu, of env post ?s2] by auto
  have "executing_of (frames_of (trace (tool_loop followUp env post ?s2))) =
      executing_of (frames_of (trace ?s2)) @ map (\<lambda>c. (call_name c, call_args c)) post"
    by (rule tool_loop_executing [OF fu])
  then have d: "executing_of rest = map (\<lambda>c. (call_name c, call_args c)) post"
    unfolding c by simp
  show ?thesis
    unfolding b c a using d by simp
qed


lemma calls_only_gemini: "calls_only (gemini_followUp env)"
  by (simp add: calls_only_def gemini_followUp_trace)

lemma calls_only_ollama: "calls_only (ollama_followUp env h)"
  by (simp add: calls_only_def ollama_followUp_trace)




lemma scenario_A_gemini:
  assumes model: "gemini_send env (gemini_history msg (history_or_empty h)) msg w0 =
      (Inr \<lparr>ans_calls = Some [\<lparr>call_name = js ''getWeatherData'',
                                call_args = [(js ''city'', kolkata)]\<rparr>],
            ans_text = t0\<rparr>, w1)"
    and city: "ToString env kolkata = Inr city"
    and weather: "fetch_json env (js ''http://localhost:3000/getWeatherDetails?city='' @ city) w1 =
      (Inr temp, w2)"
    and followUp: "gemini_generate env (followUp_prompt env (js ''getWeatherData'') temp) w2 =
      (Inr summary, w3)"
  shows "frames_of (trace (chat_gemini env \<lparr>message = msg, conversation_history = h\<rparr> (start w0))) =
     [Thinking (js ''Processing...''),
      FunctionCall (js ''getWeatherData'') (Some [(js ''city'', kolkata)]) Executing None None,
      FunctionCall (js ''getWeatherData'') (Some [(js ''city'', kolkata)]) Completed (Some temp) None,
      Content summary,
      Complete]"
  using followUp
  by (simp add: chat_gemini_def respond_def run_tool_call_def callGeminiWithTools_def
      gemini_followUp_def res_write_def res_end_def emit_def start_def Let_def tools model city
      weather)

lemma scenario_A_ollama:
  assumes model: "ollama_post env
        (ollama_messages msg (history_or_empty h) (Some systemPrompt_tools)) w0 =
      (Replied (Some content), w1)"
    and parsed: "parseToolCalls env content =
      [\<lparr>call_name = js ''getWeatherData'', call_args = [(js ''city'', kolkata)]\<rparr>]"
    and city: "ToString env kolkata = Inr city"
    and weather: "fetch_json env (js ''http://localhost:3000/getWeatherDetails?city='' @ city) w1 =
      (Inr temp, w2)"
    and followUp: "ollama_post env
        (ollama_messages (followUp_prompt env (js ''getWeatherData'') temp) (history_or_empty h) None) w2 =
      (Replied (Some summary), w3)"
  shows "frames_of (trace (chat_ollama env \<lparr>message = msg, conversation_history = h\<rparr> (start w0))) =
     [Thinking (js ''Processing...''),
      FunctionCall (js ''getWeatherData'') (Some [(js ''city'', kolkata)]) Executing None None,
      FunctionCall (js ''getWeatherData'') (Some [(js ''city'', kolkata)]) Completed (Some temp) None,
      Content summary,
      Complete]"
  using followUp
  by (simp add: chat_ollama_def respond_def run_tool_call_def callOllamaWithTools_def callOllama_def
      ollama_followUp_def res_write_def res_end_def emit_def start_def Let_def tools model parsed
      city weather)

text \<open>
  Claim C1.  Scenario A, in both variants of the route: when the model asks for the one
  tool call \<open>getWeatherData\<close> with the argument \<open>city\<close>, a value that reads as a
  string in the URL as the name of a city does, the weather collaborator
  answers with a JSON value and the follow-up model call answers with a text, the
  response body is exactly: the thinking frame, the function call frame with status
  executing, the function call frame with status completed that carries the
  collaborator's value, the content frame with the follow-up text, the complete frame.
\<close>

theorem C1_scenario_A:
  "(gemini_send env (gemini_history msg (history_or_empty h)) msg w0 =
      (Inr \<lparr>ans_calls = Some [\<lparr>call_name = js ''getWeatherData'',
                                call_args = [(js ''city'', kolkata)]\<rparr>],
            ans_text = t0\<rparr>, w1)
    \<and> ToString env kolkata = Inr city
    \<and> fetch_json env (js ''http://localhost:3000/getWeatherDetails?city='' @ city) w1 =
      (Inr temp, w2)
    \<and> gemini_generate env (followUp_prompt env (js ''getWeatherData'') temp) w2 =
      (Inr summary, w3)
    \<longrightarrow>
    frames_of (trace (chat_gemini env \<lparr>message = msg, conversation_history = h\<rparr> (start w0))) =
     [Thinking (js ''Processing...''),
      FunctionCall (js ''getWeatherData'') (Some [(js ''city'', kolkata)]) Executing None None,
      FunctionCall (js ''getWeatherData'') (Some [(js ''city'', kolkata)]) Completed (Some temp) None,
      Content summary,
      Complete])
   \<and>
   (ollama_post env (ollama_messages msg (history_or_empty h) (Some systemPrompt_tools)) w0 =
      (Replied (Some content), w1)
    \<and> parseToolCalls env content =
      [\<lparr>call_name = js ''getWeatherData'', call_args = [(js ''city'', kolkata)]\<rparr>]
    \<and> ToString env kolkata = Inr city
    \<and> fetch_json env (js ''http://localhost:3000/getWeatherDetails?city='' @ city) w1 =
      (Inr temp, w2)
    \<and> ollama_post env
        (ollama_messages (followUp_prompt env (js ''getWeatherData'') temp) (history_or_empty h) None) w2 =
      (Replied (Some summary), w3)
    \<longrightarrow>
    frames_of (trace (chat_ollama env \<lparr>message = msg, conversation_history = h\<rparr> (start w0))) =
     [Thinking (js ''Processing...''),
      FunctionCall (js ''getWeatherData'') (Some [(js ''city'', kolkata)]) Executing None None,
      FunctionCall (js ''getWeatherData'') (Some [(js ''city'', kolkata)]) Completed (Some temp) None,
      Content summary,
      Complete])"
  using scenario_A_gemini [of env msg h w0 kolkata t0 w1 city temp w2 summary w3]
    scenario_A_ollama [of env msg h w0 content w1 kolkata city temp w2 summary w3]
  by blast

theorem C1_scenario_A_witness:
  \<open>frames_of (trace (chat_gemini
      (stub_env [\<lparr>call_name = js ''getWeatherData'',
                  call_args = [(js ''city'', JString (js ''Kolkata''))]\<rparr>]
         (js ''TOOL_CALL: getWeatherData("city": "Kolkata")'') stub_fetch)
      \<lparr>message = js ''weather in Kolkata?'', conversation_history = None\<rparr> (start 0))) =
     [Thinking (js ''Processing...''),
      FunctionCall (js ''getWeatherData'') (Some [(js ''city'', JString (js ''Kolkata''))])
        Executing None None,
      FunctionCall (js ''getWeatherData'') (Some [(js ''city'', JString (js ''Kolkata''))])
        Completed (Some (JObject [(js ''temp'', JString (js ''37c''))])) None,
      Content (js ''It is done.''),
      Complete]
   \<and> frames_of (trace (chat_ollama
      (stub_env [\<lparr>call_name = js ''getWeatherData'',
                  call_args = [(js ''city'', JString (js ''Kolkata''))]\<rparr>]
         (js ''TOOL_CALL: getWeatherData("city": "Kolkata")'') stub_fetch)
      \<lparr>message = js ''weather in Kolkata?'', conversation_history = None\<rparr> (start 0))) =
     [Thinking (js ''Processing...''),
      FunctionCall (js ''getWeatherData'') (Some [(js ''city'', JString (js ''Kolkata''))])
        Executing None None,
      FunctionCall (js ''getWeatherData'') (Some [(js ''city'', JString (js ''Kolkata''))])
        Completed (Some (JObject [(js ''temp'', JString (js ''37c''))])) None,
      Content (js ''It is done.''),
      Complete]\<close>
proof -
  let ?call = "\<lparr>call_name = js ''getWeatherData'',
                 call_args = [(js ''city'', JString (js ''Kolkata''))]\<rparr>"
  let ?text = \<open>js ''TOOL_CALL: getWeatherData("city": "Kolkata")''\<close>
  let ?E = "stub_env [?call] ?text stub_fetch"
  let ?msg = "js ''weather in Kolkata?''"
  let ?temp = "JObject [(js ''temp'', JString (js ''37c''))]"
  have g1: "gemini_send ?E (gemini_history ?msg (history_or_empty None)) ?msg 0 =
      (Inr \<lparr>ans_calls = Some [?call], ans_text = ?text\<rparr>, 1)"
    by (simp add: stub_env_def)
  have c: "ToString ?E (JString (js ''Kolkata'')) = Inr (js ''Kolkata'')"
    by (simp add: stub_env_def stub_ToString_def)
  have u: "js ''http://localhost:3000/getWeatherDetails?city='' @ js ''Kolkata''
      = js ''http://localhost:3000/getWeatherDetails?city=Kolkata''"
    by (simp add: js_def)
  have g2: "fetch_json ?E (js ''http://localhost:3000/getWeatherDetails?city='' @ js ''Kolkata'') 1 =
      (Inr ?temp, 2)"
    unfolding u by (simp add: stub_env_def stub_fetch_def)
  have g3: "gemini_generate ?E (followUp_prompt ?E (js ''getWeatherData'') ?temp) 2 =
      (Inr (js ''It is done.''), 3)"
    by (simp add: stub_env_def)
  have o1: "ollama_post ?E (ollama_messages ?msg (history_or_empty None) (Some systemPrompt_tools)) 0 =
      (Replied (Some ?text), 1)"
    by (simp add: stub_env_def)
  have o2: "parseToolCalls ?E ?text = [?call]"
    by (simp add: parseToolCalls_def parse_loop.simps match_here_def stub_env_def stub_parse_def chars)
  have o4: "ollama_post ?E (ollama_messages (followUp_prompt ?E (js ''getWeatherData'') ?temp)
        (history_or_empty None) None) 2 = (Replied (Some (js ''It is done.'')), 3)"
    by (simp add: stub_env_def)
  show ?thesis
    using g1 c g2 g3 o1 o2 o4
      C1_scenario_A [where env = ?E and msg = ?msg and h = None and ?w0.0 = 0 and ?w1.0 = 1
        and ?w2.0 = 2 and ?w3.0 = 3 and kolkata = "JString (js ''Kolkata'')"
        and city = "js ''Kolkata''" and temp = ?temp
        and summary = "js ''It is done.''" and content = ?text and ?t0.0 = ?text]
    by blast
qed

text \<open>
  Claim C2.  In both variants of the route, wherever in the queue of tool calls the
  execution of a call fails, the frames written for that call are: the function call
  frame with status executing, the function call frame with status error that carries
  the error message, and a content frame whose text names the tool; the loop then goes
  on, the frames that follow announce every remaining call, in the order in which the
  model returned them, and the complete frame ends the response.
\<close>

theorem C2_failed_tool_call_continues:
  assumes variant: "followUp = gemini_followUp env \<or> followUp = ollama_followUp env h"
    and queue: "resp_calls response = pre @ fc # post"
    and fail: "fst (executeTool env (call_name fc) (call_args fc)
        (res_write (FunctionCall (call_name fc) (Some (call_args fc)) Executing None None)
           (tool_loop followUp env pre s))) = Inl err"
  shows "\<exists>rest.
     frames_of (trace (respond followUp env (Inr response, s))) =
       frames_of (trace (tool_loop followUp env pre s))
       @ [FunctionCall (call_name fc) (Some (call_args fc)) Executing None None,
          FunctionCall (call_name fc) None Failed None (Some err),
          Content (js ''Error during '' @ call_name fc @ js '': '' @ err)]
       @ rest @ [Complete]
     \<and> executing_of rest = map (\<lambda>c. (call_name c, call_args c)) post
     \<and> executing_of (frames_of (trace (tool_loop followUp env pre s))) =
         executing_of (frames_of (trace s)) @ map (\<lambda>c. (call_name c, call_args c)) pre"
proof -
  have fu: "calls_only followUp"
    using variant calls_only_gemini calls_only_ollama by blast
  obtain rest where r: "frames_of (trace (tool_loop followUp env (pre @ fc # post) s)) =
       frames_of (trace (tool_loop followUp env pre s))
       @ [FunctionCall (call_name fc) (Some (call_args fc)) Executing None None,
          FunctionCall (call_name fc) None Failed None (Some err),
          Content (js ''Error during '' @ call_name fc @ js '': '' @ err)]
       @ rest"
    "executing_of rest = map (\<lambda>c. (call_name c, call_args c)) post"
    using tool_loop_failure [OF fu fail, of post] by blast
  have "frames_of (trace (respond followUp env (Inr response, s))) =
      frames_of (trace (tool_loop followUp env (pre @ fc # post) s)) @ [Complete]"
    using queue by (simp add: respond_def res_end_def res_write_def emit_def)
  then have "frames_of (trace (respond followUp env (Inr response, s))) =
       frames_of (trace (tool_loop followUp env pre s))
       @ [FunctionCall (call_name fc) (Some (call_args fc)) Executing None None,
          FunctionCall (call_name fc) None Failed None (Some err),
          Content (js ''Error during '' @ call_name fc @ js '': '' @ err)]
       @ rest @ [Complete]"
    unfolding r(1) by simp
  moreover have "executing_of (frames_of (trace (tool_loop followUp env pre s))) =
         executing_of (frames_of (trace s)) @ map (\<lambda>c. (call_name c, call_args c)) pre"
    by (rule tool_loop_executing [OF fu])
  ultimately show ?thesis using r(2) by blast
qed

theorem C2_failed_tool_call_continues_witness:
  "frames_of (trace (chat_gemini
      (stub_env
         [\<lparr>call_name = js ''deleteUserlData'',
           call_args = [(js ''email'', JString (js ''a@x.io'')), (js ''token'', JString (js ''2''))]\<rparr>,
          \<lparr>call_name = js ''getWeatherData'',
           call_args = [(js ''city'', JString (js ''Kolkata''))]\<rparr>]
         [] stub_fetch)
      \<lparr>message = js ''go'', conversation_history = None\<rparr> (start 0))) =
     [Thinking (js ''Processing...''),
      FunctionCall (js ''deleteUserlData'')
        (Some [(js ''email'', JString (js ''a@x.io'')), (js ''token'', JString (js ''2''))])
        Executing None None,
      FunctionCall (js ''deleteUserlData'') None Failed None (Some (js ''fetch failed'')),
      Content (js ''Error during deleteUserlData: fetch failed''),
      FunctionCall (js ''getWeatherData'') (Some [(js ''city'', JString (js ''Kolkata''))])
        Executing None None,
      FunctionCall (js ''getWeatherData'') (Some [(js ''city'', JString (js ''Kolkata''))])
        Completed (Some (JObject [(js ''temp'', JString (js ''37c''))])) None,
      Content (js ''It is done.''),
      Complete]
   \<and> (\<exists>rest.
        frames_of (trace (chat_gemini
          (stub_env
             [\<lparr>call_name = js ''deleteUserlData'',
               call_args = [(js ''email'', JString (js ''a@x.io'')), (js ''token'', JString (js ''2''))]\<rparr>,
              \<lparr>call_name = js ''getWeatherData'',
               call_args = [(js ''city'', JString (js ''Kolkata''))]\<rparr>]
             [] stub_fetch)
          \<lparr>message = js ''go'', conversation_history = None\<rparr> (start 0))) =
        [Thinking (js ''Processing...'')]
        @ [FunctionCall (js ''deleteUserlData'')
             (Some [(js ''email'', JString (js ''a@x.io'')), (js ''token'', JString (js ''2''))])
             Executing None None,
           FunctionCall (js ''deleteUserlData'') None Failed None (Some (js ''fetch failed'')),
           Content (js ''Error during '' @ js ''deleteUserlData'' @ js '': '' @ js ''fetch failed'')]
        @ rest @ [Complete]
      \<and> executing_of rest =
          [(js ''getWeatherData'', [(js ''city'', JString (js ''Kolkata''))])])"
proof -
  let ?del = "\<lparr>call_name = js ''deleteUserlData'',
      call_args = [(js ''email'', JString (js ''a@x.io'')), (js ''token'', JString (js ''2''))]\<rparr>"
  let ?wea = "\<lparr>call_name = js ''getWeatherData'',
      call_args = [(js ''city'', JString (js ''Kolkata''))]\<rparr>"
  let ?E = "stub_env [?del, ?wea] [] stub_fetch"
  let ?R = "\<lparr>message = js ''go'', conversation_history = None\<rparr>"
  let ?s = "\<lparr>world = 1::nat,
      trace = [Opened, Wrote (Thinking (js ''Processing...'')),
               Called (GeminiChat [\<lparr>g_role = User, g_text = js ''go''\<rparr>] (js ''go''))]\<rparr>
      :: (nat, json) sys"
  let ?response = "\<lparr>resp_calls = [?del, ?wea], resp_text = []\<rparr>"
  have run: "frames_of (trace (chat_gemini ?E ?R (start 0))) =
     [Thinking (js ''Processing...''),
      FunctionCall (js ''deleteUserlData'')
        (Some [(js ''email'', JString (js ''a@x.io'')), (js ''token'', JString (js ''2''))])
        Executing None None,
      FunctionCall (js ''deleteUserlData'') None Failed None (Some (js ''fetch failed'')),
      Content (js ''Error during deleteUserlData: fetch failed''),
      FunctionCall (js ''getWeatherData'') (Some [(js ''city'', JString (js ''Kolkata''))])
        Executing None None,
      FunctionCall (js ''getWeatherData'') (Some [(js ''city'', JString (js ''Kolkata''))])
        Completed (Some (JObject [(js ''temp'', JString (js ''37c''))])) None,
      Content (js ''It is done.''),
      Complete]"
    by (simp add: route tools stub_env_def stub_ToString_def stub_fetch_def chars)
  have first: "callGeminiWithTools ?E (message ?R) (conversation_history ?R)
      (res_write (Thinking (js ''Processing...'')) (emit Opened (start 0))) = (Inr ?response, ?s)"
    by (simp add: route stub_env_def gemini_history_def gemini_format_def ensure_first_user_def
        clean_loop.simps)
  have route_eq: "chat_gemini ?E ?R (start 0) = respond (gemini_followUp ?E) ?E (Inr ?response, ?s)"
    unfolding chat_gemini_def first ..
  have variant: "gemini_followUp ?E = gemini_followUp ?E \<or> gemini_followUp ?E = ollama_followUp ?E None"
    by simp
  have queue: "resp_calls ?response = [] @ ?del # [?wea]" by simp
  have fails: "fst (executeTool ?E (call_name ?del) (call_args ?del)
        (res_write (FunctionCall (call_name ?del) (Some (call_args ?del)) Executing None None)
           (tool_loop (gemini_followUp ?E) ?E [] ?s))) = Inl (js ''fetch failed'')"
    by (simp add: tools stub_env_def stub_ToString_def stub_fetch_def chars res_write_def emit_def)
  show ?thesis
    using run C2_failed_tool_call_continues [OF variant queue fails] unfolding route_eq [symmetric]
    by simp
qed



section \<open>Properties of the emulated tool calls\<close>

lemma rx_literal: "rx_results (literal p) s = (case strip_prefix p s of None \<Rightarrow> [] | Some r \<Rightarrow> [r])"
  by (induction p s rule: strip_prefix.induct) (auto simp: rx_results.simps)

text \<open>A greedy class takes its whole run first; every other way leaves a code unit of
  the class at the head.\<close>

lemma rx_greedy_class:
  "\<exists>t. rx_results (Greedy (Atom P)) s = dropWhile P s # t \<and>
       (\<forall>x\<in>set t. \<exists>c cs. x = c # cs \<and> P c)"
proof (induction s)
  case Nil
  show ?case by (simp add: rx_results.simps)
next
  case (Cons c cs)
  show ?case
  proof (cases "P c")
    case True
    obtain t where t: "rx_results (Greedy (Atom P)) cs = dropWhile P cs # t"
      "\<forall>x\<in>set t. \<exists>c cs. x = c # cs \<and> P c"
      using Cons.IH by blast
    have "rx_results (Greedy (Atom P)) (c # cs) = dropWhile P (c # cs) # (t @ [c # cs])"
      using True t(1) by (simp add: rx_results.simps(2) rx_results.simps(4) [of _ "c # cs"])
    moreover have "\<forall>x\<in>set (t @ [c # cs]). \<exists>c cs. x = c # cs \<and> P c"
      using True t(2) by auto
    ultimately show ?thesis by blast
  next
    case False
    then have "rx_results (Greedy (Atom P)) (c # cs) = dropWhile P (c # cs) # []"
      by (simp add: rx_results.simps(2) rx_results.simps(4) [of _ "c # cs"])
    then show ?thesis by auto
  qed
qed

lemma concat_map_empty: "(\<forall>x\<in>set xs. f x = []) \<Longrightarrow> concat (map f xs) = []"
  by (induction xs) auto

lemma space_not_word: "isSpace c \<Longrightarrow> \<not> isWordChar c"
  unfolding isSpace_def isWhiteSpace_def isLineTerminator_def isWordChar_def
  by (auto simp: word_le_def)

lemma open_not_space: "\<not> isSpace 0x28"
  by (simp add: isSpace_def isWhiteSpace_def isLineTerminator_def)

lemma space_not_open: "isSpace c \<Longrightarrow> c \<noteq> 0x28"
  using open_not_space by blast

lemma open_not_word: "\<not> isWordChar 0x28"
  by (simp add: isWordChar_def)

lemma word_not_open: "isWordChar c \<Longrightarrow> c \<noteq> 0x28"
  using open_not_word by blast

lemma take_dropWhile: "take (length s - length (dropWhile P s)) s = takeWhile P s"
proof -
  have "length s = length (takeWhile P s) + length (dropWhile P s)"
    by (metis length_append takeWhile_dropWhile_id)
  then have "length s - length (dropWhile P s) = length (takeWhile P s)" by simp
  then show ?thesis by (simp add: takeWhile_eq_take [symmetric])
qed

lemma rx_open:
  "rx_results (Cat (Greedy (Atom isSpace)) (Atom (\<lambda>x. x = 0x28))) s =
     (case dropWhile isSpace s of [] \<Rightarrow> [] | c # r \<Rightarrow> if c = 0x28 then [r] else [])"
proof -
  obtain t where t: "rx_results (Greedy (Atom isSpace)) s = dropWhile isSpace s # t"
    "\<forall>x\<in>set t. \<exists>c cs. x = c # cs \<and> isSpace c"
    using rx_greedy_class [of isSpace s] by blast
  have "\<forall>x\<in>set t. rx_results (Atom (\<lambda>x. x = 0x28)) x = []"
    using t(2) space_not_open by (fastforce simp: rx_results.simps(2))
  then have "concat (map (rx_results (Atom (\<lambda>x. x = 0x28))) t) = []"
    by (rule concat_map_empty)
  then show ?thesis
    by (simp add: rx_results.simps(2,3) t(1) split: list.splits)
qed

lemma rx_lazy_first:
  "first_match (concat (map (\<lambda>s4. map (F s4) (rx_results (Atom (\<lambda>x. x = 0x29)) s4))
      (rx_results (Lazy (Atom (\<lambda>x. \<not> isLineTerminator x))) s))) =
     (case dropWhile (\<lambda>d. d \<noteq> 0x29 \<and> \<not> isLineTerminator d) s of
        [] \<Rightarrow> None
      | d # rest \<Rightarrow> if d = 0x29 then Some (F (d # rest) rest) else None)"
proof (induction s)
  case Nil
  show ?case by (simp add: rx_results.simps(2) rx_results.simps(5) [of _ "[]"] first_match_def)
next
  case (Cons c cs)
  have u: "rx_results (Lazy (Atom Q)) (c # cs) =
      (c # cs) # (if Q c then rx_results (Lazy (Atom Q)) cs else [])" for Q
    by (simp add: rx_results.simps(2) rx_results.simps(5) [of _ "c # cs"])
  show ?case
    unfolding u using Cons.IH by (simp add: rx_results.simps(2) first_match_def)
qed

lemma match_here_backtracking: "match_here s = first_match (pattern_matches s)"
proof (cases "strip_prefix (js ''TOOL_CALL:'') s")
  case None
  then show ?thesis
    by (simp add: match_here_def pattern_matches_def rx_literal rx_results.simps(3) first_match_def)
next
  case (Some r)
  let ?name = "Cat (Atom isWordChar) (Greedy (Atom isWordChar))"
  let ?open = "Cat (Greedy (Atom isSpace)) (Atom (\<lambda>x. x = 0x28))"
  let ?lazy = "Lazy (Atom (\<lambda>x. \<not> isLineTerminator x))"
  let ?close = "Atom (\<lambda>x. x = 0x29)"
  let ?N = "\<lambda>s1 s2 s3. concat (map (\<lambda>s4. map (\<lambda>rest.
      (take (length s1 - length s2) s1, take (length s3 - length s4) s3, rest))
      (rx_results ?close s4)) (rx_results ?lazy s3))"
  let ?M = "\<lambda>s1 s2. concat (map (?N s1 s2) (rx_results ?open s2))"
  let ?K = "\<lambda>s1. concat (map (?M s1) (rx_results ?name s1))"
  let ?s1 = "dropWhile isSpace r"
  obtain t1 where t1: "rx_results (Greedy (Atom isSpace)) r = ?s1 # t1"
    "\<forall>x\<in>set t1. \<exists>c cs. x = c # cs \<and> isSpace c"
    using rx_greedy_class [of isSpace r] by blast
  have "\<forall>x\<in>set t1. rx_results ?name x = []"
    using t1(2) space_not_word by (fastforce simp: rx_results.simps(2,3))
  then have "\<forall>x\<in>set t1. ?K x = []" by simp
  then have "concat (map ?K t1) = []" by (rule concat_map_empty)
  then have pm: "pattern_matches s = ?K ?s1"
    by (simp add: pattern_matches_def rx_literal rx_results.simps(3) [of "literal _"] Some t1(1))
  show ?thesis
  proof (cases "takeWhile isWordChar ?s1 = []")
    case True
    have "rx_results ?name ?s1 = []"
    proof (cases ?s1)
      case Nil
      show ?thesis unfolding Nil by (simp add: rx_results.simps(2,3))
    next
      case (Cons c cs)
      have "\<not> isWordChar c"
        using True unfolding Cons by (simp split: if_splits)
      then show ?thesis unfolding Cons by (simp add: rx_results.simps(2,3))
    qed
    then show ?thesis
      by (simp add: pm match_here_def Some first_match_def True)
  next
    case False
    have "?s1 \<noteq> []"
    proof
      assume "?s1 = []"
      then have "takeWhile isWordChar ?s1 = takeWhile isWordChar []" by (rule arg_cong)
      with False show False by simp
    qed
    then obtain c cs where s1: "?s1 = c # cs" by (meson neq_Nil_conv)
    have w: "isWordChar c"
      using False unfolding s1 by (simp split: if_splits)
    let ?s2 = "dropWhile isWordChar ?s1"
    have s2: "?s2 = dropWhile isWordChar cs" unfolding s1 using w by simp
    obtain t2 where t2: "rx_results (Greedy (Atom isWordChar)) cs = dropWhile isWordChar cs # t2"
      "\<forall>x\<in>set t2. \<exists>c cs. x = c # cs \<and> isWordChar c"
      using rx_greedy_class [of isWordChar cs] by blast
    have nm: "rx_results ?name ?s1 = ?s2 # t2"
      unfolding s2 unfolding s1 by (simp add: rx_results.simps(2,3) w t2(1))
    have "rx_results ?open x = []" if "x \<in> set t2" for x
    proof -
      from t2(2) that have "\<exists>c cs. x = c # cs \<and> isWordChar c" by (rule bspec)
      then obtain d ds where x: "x = d # ds" "isWordChar d" by (elim exE conjE)
      then have "\<not> isSpace d" "d \<noteq> 0x28"
        using space_not_word word_not_open by blast+
      then show ?thesis unfolding x(1) by (simp add: rx_open)
    qed
    then have "\<forall>x\<in>set t2. ?M ?s1 x = []" by simp
    then have "concat (map (?M ?s1) t2) = []" by (rule concat_map_empty)
    then have k: "?K ?s1 = ?M ?s1 ?s2" by (simp add: nm)
    show ?thesis
    proof (cases "dropWhile isSpace ?s2")
      case Nil
      show ?thesis
        unfolding pm k by (simp add: rx_open match_here_def Some first_match_def False Nil)
    next
      case (Cons d s3)
      show ?thesis
      proof (cases "d = 0x28")
        case ne: False
        show ?thesis
          unfolding pm k by (simp add: rx_open match_here_def Some first_match_def False Cons ne)
      next
        case True
        have m: "?M ?s1 ?s2 = ?N ?s1 ?s2 s3"
          by (simp add: rx_open Cons True)
        have name: "take (length ?s1 - length ?s2) ?s1 = takeWhile isWordChar ?s1"
          by (rule take_dropWhile)
        have frag: "take (length s3 - length (dropWhile (\<lambda>d. d \<noteq> 0x29 \<and> \<not> isLineTerminator d) s3)) s3
            = takeWhile (\<lambda>d. d \<noteq> 0x29 \<and> \<not> isLineTerminator d) s3"
          by (rule take_dropWhile)
        have "first_match (?N ?s1 ?s2 s3) =
            (case dropWhile (\<lambda>d. d \<noteq> 0x29 \<and> \<not> isLineTerminator d) s3 of
               [] \<Rightarrow> None
             | e # rest \<Rightarrow>
                 if e = 0x29
                 then Some (take (length ?s1 - length ?s2) ?s1,
                            take (length s3 - length (e # rest)) s3, rest)
                 else None)"
          by (rule rx_lazy_first)
        also have "\<dots> = match_here s"
        proof (cases "dropWhile (\<lambda>d. d \<noteq> 0x29 \<and> \<not> isLineTerminator d) s3")
          case Nil
          show ?thesis
            by (simp add: match_here_def Some False Cons True Nil)
        next
          case c2: (Cons e rest)
          show ?thesis
            using frag unfolding c2
            by (simp add: match_here_def Some False Cons True c2 name)
        qed
        finally show ?thesis by (simp add: pm k m)
      qed
    qed
  qed
qed

lemma parse_loop_acc_all:
  "\<forall>a. parse_loop env content a = a @ parse_loop env content []"
proof (rule parse_loop.induct
    [where P = "\<lambda>env content acc. \<forall>a. parse_loop env content a = a @ parse_loop env content []"
       and ?a2.0 = "[]"])
  fix env :: "('w, 'j) env" and content :: jstring and toolCalls :: "'j tool_call list"
  assume IH1: "\<And>x2 x y x2a ya args. exec_from content = Some x2 \<Longrightarrow> (x, y) = x2 \<Longrightarrow>
      (x2a, ya) = y \<Longrightarrow> JSON_parse env (js ''{'' @ x2a @ js ''}'') = Some args \<Longrightarrow>
      \<forall>a. parse_loop env ya a = a @ parse_loop env ya []"
    and IH2: "\<And>x2 x y x2a ya. exec_from content = Some x2 \<Longrightarrow> (x, y) = x2 \<Longrightarrow>
      (x2a, ya) = y \<Longrightarrow> JSON_parse env (js ''{'' @ x2a @ js ''}'') = None \<Longrightarrow>
      \<forall>a. parse_loop env ya a = a @ parse_loop env ya []"
  show "\<forall>a. parse_loop env content a = a @ parse_loop env content []"
  proof (cases "exec_from content")
    case None
    then show ?thesis by (simp add: parse_loop.simps [of env content])
  next
    case (Some m)
    obtain functionName argsString rest where m: "m = (functionName, argsString, rest)"
      by (cases m)
    show ?thesis
    proof (cases "JSON_parse env (js ''{'' @ argsString @ js ''}'')")
      case None
      have ih: "\<forall>a. parse_loop env rest a = a @ parse_loop env rest []"
        using IH2 [OF Some m [symmetric] refl None] .
      have eq: "parse_loop env content a = parse_loop env rest a" for a
        using Some m None by (simp add: parse_loop.simps [of env content])
      show ?thesis unfolding eq using ih .
    next
      case (Some args)
      let ?c = "\<lparr>call_name = functionName, call_args = args\<rparr>"
      have ih: "\<forall>a. parse_loop env rest a = a @ parse_loop env rest []"
        using IH1 [OF \<open>exec_from content = Some m\<close> m [symmetric] refl Some] .
      have u: "parse_loop env content a = parse_loop env rest (a @ [?c])" for a
        using \<open>exec_from content = Some m\<close> m Some by (simp add: parse_loop.simps [of env content])
      show ?thesis
      proof
        fix a
        have A: "parse_loop env content a = (a @ [?c]) @ parse_loop env rest []"
          unfolding u [of a] using ih by (rule spec)
        have "parse_loop env rest ([] @ [?c]) = ([] @ [?c]) @ parse_loop env rest []"
          using ih by (rule spec)
        then have B: "parse_loop env content [] = [?c] @ parse_loop env rest []"
          unfolding u [of "[]"] by simp
        show "parse_loop env content a = a @ parse_loop env content []"
          unfolding A B by simp
      qed
    qed
  qed
qed

lemma parseToolCalls_unfold:
  "parseToolCalls env content =
     (case exec_from content of
        None \<Rightarrow> []
      | Some (functionName, argsString, rest) \<Rightarrow>
          (case JSON_parse env (js ''{'' @ argsString @ js ''}'') of
             None \<Rightarrow> []
           | Some args \<Rightarrow> [\<lparr>call_name = functionName, call_args = args\<rparr>])
          @ parseToolCalls env rest)"
proof -
  have acc: "parse_loop env rest [c] = [c] @ parse_loop env rest []" for rest c
    using parse_loop_acc_all [of env rest] by (rule spec)
  show ?thesis
    unfolding parseToolCalls_def
    by (subst parse_loop.simps) (simp split: option.splits add: acc)
qed

lemma exec_from_skip:
  "(\<forall>i<length pre. match_here (drop i (pre @ s)) = None) \<Longrightarrow> exec_from (pre @ s) = exec_from s"
proof (induction pre)
  case Nil
  show ?case by simp
next
  case (Cons c pre)
  have "match_here (drop 0 ((c # pre) @ s)) = None"
    using Cons.prems by blast
  then have head: "match_here (c # pre @ s) = None" by simp
  have "\<forall>i<length pre. match_here (drop i (pre @ s)) = None"
  proof (intro allI impI)
    fix i assume "i < length pre"
    then have "match_here (drop (Suc i) ((c # pre) @ s)) = None"
      using Cons.prems by auto
    then show "match_here (drop i (pre @ s)) = None" by simp
  qed
  then have "exec_from (pre @ s) = exec_from s" by (rule Cons.IH)
  then show ?case using head by simp
qed

lemma match_here_Paris:
  \<open>match_here (js ''TOOL_CALL: getWeatherData("city": "Paris")'' @ post) =
     Some (js ''getWeatherData'', js ''"city": "Paris"'', post)\<close>
  by (simp add: match_here_def chars)

lemma exec_from_Paris:
  \<open>\<forall>i<length pre. match_here (drop i
       (pre @ js ''TOOL_CALL: getWeatherData("city": "Paris")'' @ post)) = None \<Longrightarrow>
   exec_from (pre @ js ''TOOL_CALL: getWeatherData("city": "Paris")'' @ post) =
     Some (js ''getWeatherData'', js ''"city": "Paris"'', post)\<close>
proof -
  assume \<open>\<forall>i<length pre. match_here (drop i
       (pre @ js ''TOOL_CALL: getWeatherData("city": "Paris")'' @ post)) = None\<close>
  then have \<open>exec_from (pre @ js ''TOOL_CALL: getWeatherData("city": "Paris")'' @ post) =
      exec_from (js ''TOOL_CALL: getWeatherData("city": "Paris")'' @ post)\<close>
    by (rule exec_from_skip)
  also have \<open>\<dots> = Some (js ''getWeatherData'', js ''"city": "Paris"'', post)\<close>
    using match_here_Paris [of post]
    by (cases \<open>js ''TOOL_CALL: getWeatherData("city": "Paris")'' @ post\<close>) auto
  finally show ?thesis .
qed

text \<open>
  Claim C3.  A text whose one occurrence of the pattern is
  \<open>TOOL_CALL: getWeatherData("city": "Paris")\<close> yields exactly one tool call, named
  \<open>getWeatherData\<close>, with the arguments that \<open>JSON.parse\<close> reads from
  \<open>{"city": "Paris"}\<close>.  For every text, the parser returns the calls of the occurrences
  from left to right: an occurrence whose fragment \<open>JSON.parse\<close> rejects adds no call
  and the scan goes on behind it, an occurrence whose fragment parses adds one call, and
  a text without occurrence yields no call.  The parser is a total function: the loop
  ends on every text and no exception leaves it.
\<close>

theorem C3_parseToolCalls:
  \<open>(JSON_parse env (js ''{"city": "Paris"}'') = Some args
      \<and> (\<forall>i<length pre. match_here (drop i
             (pre @ js ''TOOL_CALL: getWeatherData("city": "Paris")'' @ post)) = None)
      \<and> exec_from post = None \<longrightarrow>
      parseToolCalls env (pre @ js ''TOOL_CALL: getWeatherData("city": "Paris")'' @ post) =
        [\<lparr>call_name = js ''getWeatherData'', call_args = args\<rparr>])
   \<and> (exec_from content = None \<longrightarrow> parseToolCalls env content = [])
   \<and> (exec_from content = Some (functionName, argsString, rest)
        \<and> JSON_parse env (js ''{'' @ argsString @ js ''}'') = None \<longrightarrow>
      parseToolCalls env content = parseToolCalls env rest)
   \<and> (exec_from content = Some (functionName, argsString, rest)
        \<and> JSON_parse env (js ''{'' @ argsString @ js ''}'') = Some args' \<longrightarrow>
      parseToolCalls env content =
        \<lparr>call_name = functionName, call_args = args'\<rparr> # parseToolCalls env rest)\<close>
proof -
  have w: \<open>js ''{'' @ js ''"city": "Paris"'' @ js ''}'' = js ''{"city": "Paris"}''\<close>
    by (simp add: js_def)
  have 2: "parseToolCalls env content = []" if "exec_from content = None" for content
    using that by (subst parseToolCalls_unfold) simp
  have 3: "parseToolCalls env content = parseToolCalls env rest"
    if "exec_from content = Some (functionName, argsString, rest)"
      "JSON_parse env (js ''{'' @ argsString @ js ''}'') = None"
    using that by (subst parseToolCalls_unfold) simp
  have 4: "parseToolCalls env content =
        \<lparr>call_name = functionName, call_args = args'\<rparr> # parseToolCalls env rest"
    if "exec_from content = Some (functionName, argsString, rest)"
      "JSON_parse env (js ''{'' @ argsString @ js ''}'') = Some args'"
    for content functionName argsString rest args'
    using that by (subst parseToolCalls_unfold) simp
  have 1: \<open>parseToolCalls env (pre @ js ''TOOL_CALL: getWeatherData("city": "Paris")'' @ post) =
        [\<lparr>call_name = js ''getWeatherData'', call_args = args\<rparr>]\<close>
    if p: \<open>JSON_parse env (js ''{"city": "Paris"}'') = Some args\<close>
      and only: \<open>\<forall>i<length pre. match_here (drop i
             (pre @ js ''TOOL_CALL: getWeatherData("city": "Paris")'' @ post)) = None\<close>
      and after: "exec_from post = None"
  proof -
    have \<open>parseToolCalls env (pre @ js ''TOOL_CALL: getWeatherData("city": "Paris")'' @ post) =
        \<lparr>call_name = js ''getWeatherData'', call_args = args\<rparr> # parseToolCalls env post\<close>
      using exec_from_Paris [OF only] p unfolding w [symmetric] by (rule 4)
    then show ?thesis using 2 [OF after] by simp
  qed
  from 1 2 3 4 show ?thesis by blast
qed

theorem C3_parseToolCalls_witness:
  \<open>parseToolCalls (stub_env [] [] stub_fetch) (js ''TOOL_CALL: getWeatherData("city": "Paris")'') =
     [\<lparr>call_name = js ''getWeatherData'', call_args = [(js ''city'', JString (js ''Paris''))]\<rparr>]
   \<and> parseToolCalls (stub_env [] [] stub_fetch)
       (js ''I will look. '' @ js ''TOOL_CALL: getWeatherData("city": "Paris")'' @ js '' Wait.'') =
     [\<lparr>call_name = js ''getWeatherData'', call_args = [(js ''city'', JString (js ''Paris''))]\<rparr>]
   \<and> parseToolCalls (stub_env [] [] stub_fetch)
       (js ''TOOL_CALL: lookup({"city": "Paris") TOOL_CALL: getWeatherData("city": "Paris")'') =
     [\<lparr>call_name = js ''getWeatherData'', call_args = [(js ''city'', JString (js ''Paris''))]\<rparr>]\<close>
proof -
  let ?E = "stub_env [] [] stub_fetch :: (nat, json) env"
  let ?args = "[(js ''city'', JString (js ''Paris''))]"
  have p: \<open>JSON_parse ?E (js ''{"city": "Paris"}'') = Some ?args\<close>
    by (simp add: stub_env_def stub_parse_def js_def)
  have n0: \<open>\<forall>i<length ([]::jstring). match_here (drop i
      ([] @ js ''TOOL_CALL: getWeatherData("city": "Paris")'' @ [])) = None\<close>
    by simp
  have e0: "exec_from [] = None" by (simp add: match_here_def js_def)
  have a: \<open>parseToolCalls ?E ([] @ js ''TOOL_CALL: getWeatherData("city": "Paris")'' @ []) =
      [\<lparr>call_name = js ''getWeatherData'', call_args = ?args\<rparr>]\<close>
    using C3_parseToolCalls [of ?E ?args "[]" "[]"] p n0 e0 by blast
  have n1: \<open>\<forall>i<length (js ''I will look. ''). match_here (drop i
      (js ''I will look. '' @ js ''TOOL_CALL: getWeatherData("city": "Paris")'' @ js '' Wait.'')) = None\<close>
    by (simp add: All_less_Suc match_here_def chars)
  have e1: "exec_from (js '' Wait.'') = None" by (simp add: match_here_def js_def)
  have b: \<open>parseToolCalls ?E
      (js ''I will look. '' @ js ''TOOL_CALL: getWeatherData("city": "Paris")'' @ js '' Wait.'') =
      [\<lparr>call_name = js ''getWeatherData'', call_args = ?args\<rparr>]\<close>
    using C3_parseToolCalls [of ?E ?args "js ''I will look. ''" "js '' Wait.''"] p n1 e1 by blast
  have m1: \<open>exec_from
      (js ''TOOL_CALL: lookup({"city": "Paris") TOOL_CALL: getWeatherData("city": "Paris")'') =
      Some (js ''lookup'', js ''{"city": "Paris"'',
            js '' TOOL_CALL: getWeatherData("city": "Paris")'')\<close>
    by (simp add: match_here_def chars)
  have bad: \<open>JSON_parse ?E (js ''{'' @ js ''{"city": "Paris"'' @ js ''}'') = None\<close>
    by (simp add: stub_env_def stub_parse_def js_def)
  have c1: \<open>parseToolCalls ?E
      (js ''TOOL_CALL: lookup({"city": "Paris") TOOL_CALL: getWeatherData("city": "Paris")'') =
      parseToolCalls ?E (js '' TOOL_CALL: getWeatherData("city": "Paris")'')\<close>
    using C3_parseToolCalls [where env = ?E and functionName = "js ''lookup''"
        and content = \<open>js ''TOOL_CALL: lookup({"city": "Paris") TOOL_CALL: getWeatherData("city": "Paris")''\<close>
        and argsString = \<open>js ''{"city": "Paris"''\<close>
        and rest = \<open>js '' TOOL_CALL: getWeatherData("city": "Paris")''\<close>] m1 bad
    by blast
  have n2: \<open>\<forall>i<length (js '' ''). match_here (drop i
      (js '' '' @ js ''TOOL_CALL: getWeatherData("city": "Paris")'' @ [])) = None\<close>
    by (simp add: All_less_Suc match_here_def chars)
  have c2: \<open>parseToolCalls ?E (js '' '' @ js ''TOOL_CALL: getWeatherData("city": "Paris")'' @ []) =
      [\<lparr>call_name = js ''getWeatherData'', call_args = ?args\<rparr>]\<close>
    using C3_parseToolCalls [of ?E ?args "js '' ''" "[]"] p n2 e0 by blast
  have j: \<open>js '' '' @ js ''TOOL_CALL: getWeatherData("city": "Paris")'' @ [] =
      js '' TOOL_CALL: getWeatherData("city": "Paris")''\<close>
    by (simp add: js_def)
  show ?thesis
    using a b c1 c2 unfolding j by simp
qed

section \<open>Properties of the client's request\<close>

lemma clean_loop_length:
  "length (clean_loop h i acc) \<le> length acc + (length h - i)"
proof (induction h i acc rule: clean_loop.induct)
  case (1 history i cleanHistory)
  show ?case
  proof (cases "i < length history")
    case True
    with 1 show ?thesis
      by (subst clean_loop.simps) (auto split: if_splits)
  next
    case False
    then show ?thesis by (subst clean_loop.simps) simp
  qed
qed

lemma gemini_history_length: "length (gemini_history m h) \<le> max 1 (length h)"
proof -
  have "length (ensure_first_user m (gemini_format h)) \<le> max 1 (length h)"
    by (simp add: ensure_first_user_def gemini_format_def le_max_iff_disj)
  moreover have "length (gemini_history m h) \<le> length (ensure_first_user m (gemini_format h))"
    using clean_loop_length [of "ensure_first_user m (gemini_format h)" 0 "[]"]
    by (simp add: gemini_history_def)
  ultimately show ?thesis by linarith
qed

lemma sendMessage_Some:
  "sendMessage c = Some req \<Longrightarrow>
     message req = inputValue c \<and>
     conversation_history req = Some (drop (length (messages c) - 10) (messages c))"
  by (auto simp: sendMessage_def slice_last_def split: if_splits)

text \<open>
  The adapters do not cut the history they are given: the loop of the Gemini adapter
  keeps every turn of a history whose roles alternate, and the Ollama adapter maps the
  turns one for one.
\<close>

lemma clean_loop_keeps:
  "distinct_adj (map g_role h) \<Longrightarrow> i \<le> length h \<Longrightarrow> clean_loop h i acc = acc @ drop i h"
proof (induction h i acc rule: clean_loop.induct)
  case (1 history i cleanHistory)
  show ?case
  proof (cases "i < length history")
    case False
    then show ?thesis using "1.prems"(2) by (subst clean_loop.simps) simp
  next
    case True
    have step: "i = 0 \<or> g_role (history ! i) \<noteq> g_role (history ! (i - 1))"
    proof (cases i)
      case 0
      then show ?thesis by simp
    next
      case (Suc k)
      have "Suc k < length (map g_role history)" using True Suc by simp
      then have "map g_role history ! k \<noteq> map g_role history ! Suc k"
        using "1.prems"(1) unfolding distinct_adj_conv_nth by blast
      then show ?thesis using True Suc by simp
    qed
    have "clean_loop history (i + 1) (cleanHistory @ [history ! i]) =
        (cleanHistory @ [history ! i]) @ drop (i + 1) history"
      using "1.IH" [OF True] step "1.prems"(1) True by simp
    then show ?thesis
      using True step by (subst clean_loop.simps) (simp add: Cons_nth_drop_Suc)
  qed
qed

lemma gemini_history_whole:
  assumes "h \<noteq> []" and "list_all has_content h" and "is_user (hd h)"
    and "distinct_adj (map is_user h)"
  shows "gemini_history m h =
     map (\<lambda>t. \<lparr>g_role = (if is_user t then User else Model), g_text = content_of t\<rparr>) h"
proof -
  let ?f = "\<lambda>t. \<lparr>g_role = (if is_user t then User else Model), g_text = content_of t\<rparr>"
  have f: "filter has_content h = h" using assms(2) by (simp add: list_all_iff)
  then have g: "gemini_format h = map ?f h" by (simp add: gemini_format_def)
  have e: "ensure_first_user m (map ?f h) = map ?f h"
    using assms(1,3) by (cases h) (simp_all add: ensure_first_user_def)
  have "map g_role (map ?f h) = map (\<lambda>b. if b then User else Model) (map is_user h)"
    by simp
  moreover have "inj (\<lambda>b. if b then User else Model)"
    by (rule injI) (simp split: if_splits)
  ultimately have "distinct_adj (map g_role (map ?f h))"
    using assms(4) by (simp only: distinct_adj_map_iff [OF inj_on_subset [OF _ subset_UNIV]])
  then show ?thesis
    unfolding gemini_history_def g e using clean_loop_keeps [of "map ?f h" 0 "[]"] by simp
qed

lemma ollama_messages_whole:
  assumes "list_all has_content h"
  shows "ollama_messages m h (Some systemPrompt_tools) =
     \<lparr>o_role = System, o_content = systemPrompt_tools\<rparr>
       # map (\<lambda>t. \<lparr>o_role = (if is_user t then User else Assistant), o_content = content_of t\<rparr>) h
       @ [\<lparr>o_role = User, o_content = m\<rparr>]"
proof -
  have "filter has_content h = h" using assms by (simp add: list_all_iff)
  then show ?thesis by (simp add: ollama_messages_def systemPrompt_tools_nonempty)
qed

lemma client_cut:
  assumes "sendMessage c = Some req" and "10 < length (messages c)"
  shows "\<exists>older recent.
      messages c = older @ recent \<and> length recent = 10
      \<and> message req = inputValue c \<and> conversation_history req = Some recent
      \<and> trace (snd (callGeminiWithTools env (message req) (conversation_history req) s)) =
          trace s @ [Called (GeminiChat (gemini_history (inputValue c) recent) (inputValue c))]
      \<and> length (gemini_history (inputValue c) recent) \<le> 10
      \<and> (\<forall>g\<in>set (gemini_history (inputValue c) recent).
            g = \<lparr>g_role = User, g_text = inputValue c\<rparr> \<or>
            (\<exists>t\<in>set recent.
               g = \<lparr>g_role = (if is_user t then User else Model), g_text = content_of t\<rparr>))
      \<and> trace (snd (callOllamaWithTools env (message req) (conversation_history req) s)) =
          trace s @ [Called (OllamaChat
            (ollama_messages (inputValue c) recent (Some systemPrompt_tools)))]
      \<and> trace (snd (ollama_followUp env (conversation_history req) n r s)) =
          trace s @ [Called (OllamaChat (ollama_messages (followUp_prompt env n r) recent None))]"
proof -
  let ?older = "take (length (messages c) - 10) (messages c)"
  let ?recent = "drop (length (messages c) - 10) (messages c)"
  have req: "message req = inputValue c" "conversation_history req = Some ?recent"
    using sendMessage_Some [OF assms(1)] by simp_all
  have split: "messages c = ?older @ ?recent" by simp
  have len: "length ?recent = 10" using assms(2) by simp
  have g: "trace (snd (callGeminiWithTools env (message req) (conversation_history req) s)) =
      trace s @ [Called (GeminiChat (gemini_history (inputValue c) ?recent) (inputValue c))]"
    by (simp add: callGemini_trace req history_or_empty_def)
  have gl: "length (gemini_history (inputValue c) ?recent) \<le> 10"
    using gemini_history_length [of "inputValue c" ?recent] len by simp
  have gm: "\<forall>g\<in>set (gemini_history (inputValue c) ?recent).
            g = \<lparr>g_role = User, g_text = inputValue c\<rparr> \<or>
            (\<exists>t\<in>set ?recent.
               g = \<lparr>g_role = (if is_user t then User else Model), g_text = content_of t\<rparr>)"
    using gemini_history_members [of _ "inputValue c" ?recent] by blast
  have o: "trace (snd (callOllamaWithTools env (message req) (conversation_history req) s)) =
      trace s @ [Called (OllamaChat
        (ollama_messages (inputValue c) ?recent (Some systemPrompt_tools)))]"
    by (simp add: callOllamaWithTools_def callOllama_trace req history_or_empty_def)
  have "snd (ollama_followUp env (conversation_history req) n r s) =
      snd (callOllama env (followUp_prompt env n r) (conversation_history req) None s)"
    by (simp add: ollama_followUp_def split: prod.splits sum.splits)
  then have f: "trace (snd (ollama_followUp env (conversation_history req) n r s)) =
      trace s @ [Called (OllamaChat (ollama_messages (followUp_prompt env n r) ?recent None))]"
    by (simp add: callOllama_trace req history_or_empty_def)
  show ?thesis
    using split len req g gl gm o f by (intro exI [of _ ?older] exI [of _ ?recent] conjI)
qed

text \<open>
  Claim C6.  When the chat client holds more than ten turns, the request it posts
  carries the last ten of them and nothing older, and this cut is made before anything
  is sent to a model: what either adapter sends to its provider is computed from those
  ten turns and the current message alone.  The cut is the client's.  The adapters of
  the server forward the history of the request whatever its length: the Gemini
  adapter sends every turn of a history that has no blank turn, begins with a user turn
  and alternates between user and model, and the Ollama adapter sends every turn of a
  history that has no blank turn.
\<close>

theorem C6_last_ten_turns:
  "(sendMessage c = Some req \<and> 10 < length (messages c) \<longrightarrow>
     (\<exists>older recent.
        messages c = older @ recent \<and> length recent = 10
        \<and> message req = inputValue c \<and> conversation_history req = Some recent
        \<and> trace (snd (callGeminiWithTools env (message req) (conversation_history req) s)) =
            trace s @ [Called (GeminiChat (gemini_history (inputValue c) recent) (inputValue c))]
        \<and> length (gemini_history (inputValue c) recent) \<le> 10
        \<and> (\<forall>g\<in>set (gemini_history (inputValue c) recent).
              g = \<lparr>g_role = User, g_text = inputValue c\<rparr> \<or>
              (\<exists>t\<in>set recent.
                 g = \<lparr>g_role = (if is_user t then User else Model), g_text = content_of t\<rparr>))
        \<and> trace (snd (callOllamaWithTools env (message req) (conversation_history req) s)) =
            trace s @ [Called (OllamaChat
              (ollama_messages (inputValue c) recent (Some systemPrompt_tools)))]
        \<and> trace (snd (ollama_followUp env (conversation_history req) n r s)) =
            trace s @ [Called (OllamaChat (ollama_messages (followUp_prompt env n r) recent None))]))
   \<and> (h \<noteq> [] \<and> list_all has_content h \<and> is_user (hd h) \<and> distinct_adj (map is_user h) \<longrightarrow>
       trace (snd (callGeminiWithTools env m (Some h) s)) =
         trace s @ [Called (GeminiChat
           (map (\<lambda>t. \<lparr>g_role = (if is_user t then User else Model), g_text = content_of t\<rparr>) h)
           m)])
   \<and> (list_all has_content h \<longrightarrow>
       trace (snd (callOllamaWithTools env m (Some h) s)) =
         trace s @ [Called (OllamaChat
           (\<lparr>o_role = System, o_content = systemPrompt_tools\<rparr>
              # map (\<lambda>t. \<lparr>o_role = (if is_user t then User else Assistant),
                            o_content = content_of t\<rparr>) h
              @ [\<lparr>o_role = User, o_content = m\<rparr>]))])"
proof (intro conjI impI)
  assume "sendMessage c = Some req \<and> 10 < length (messages c)"
  then show "\<exists>older recent.
        messages c = older @ recent \<and> length recent = 10
        \<and> message req = inputValue c \<and> conversation_history req = Some recent
        \<and> trace (snd (callGeminiWithTools env (message req) (conversation_history req) s)) =
            trace s @ [Called (GeminiChat (gemini_history (inputValue c) recent) (inputValue c))]
        \<and> length (gemini_history (inputValue c) recent) \<le> 10
        \<and> (\<forall>g\<in>set (gemini_history (inputValue c) recent).
              g = \<lparr>g_role = User, g_text = inputValue c\<rparr> \<or>
              (\<exists>t\<in>set recent.
                 g = \<lparr>g_role = (if is_user t then User else Model), g_text = content_of t\<rparr>))
        \<and> trace (snd (callOllamaWithTools env (message req) (conversation_history req) s)) =
            trace s @ [Called (OllamaChat
              (ollama_messages (inputValue c) recent (Some systemPrompt_tools)))]
        \<and> trace (snd (ollama_followUp env (conversation_history req) n r s)) =
            trace s @ [Called (OllamaChat (ollama_messages (followUp_prompt env n r) recent None))]"
    using client_cut [of c req env s n r] by blast
next
  assume "h \<noteq> [] \<and> list_all has_content h \<and> is_user (hd h) \<and> distinct_adj (map is_user h)"
  then have "gemini_history m h =
      map (\<lambda>t. \<lparr>g_role = (if is_user t then User else Model), g_text = content_of t\<rparr>) h"
    using gemini_history_whole [of h m] by blast
  then show "trace (snd (callGeminiWithTools env m (Some h) s)) =
         trace s @ [Called (GeminiChat
           (map (\<lambda>t. \<lparr>g_role = (if is_user t then User else Model), g_text = content_of t\<rparr>) h)
           m)]"
    by (simp add: callGemini_trace history_or_empty_def)
next
  assume "list_all has_content h"
  then show "trace (snd (callOllamaWithTools env m (Some h) s)) =
         trace s @ [Called (OllamaChat
           (\<lparr>o_role = System, o_content = systemPrompt_tools\<rparr>
              # map (\<lambda>t. \<lparr>o_role = (if is_user t then User else Assistant),
                            o_content = content_of t\<rparr>) h
              @ [\<lparr>o_role = User, o_content = m\<rparr>]))]"
    using ollama_messages_whole [of h m]
    by (simp add: callOllamaWithTools_def callOllama_trace history_or_empty_def)
qed

theorem C6_last_ten_turns_witness:
  "sendMessage \<lparr>messages =
       [stub_turn ''assistant'' ''a0'', stub_turn ''user'' ''q1'', stub_turn ''assistant'' ''a1'',
        stub_turn ''user'' ''q2'', stub_turn ''assistant'' ''a2'', stub_turn ''user'' ''q3'',
        stub_turn ''assistant'' ''a3'', stub_turn ''user'' ''q4'', stub_turn ''assistant'' ''a4'',
        stub_turn ''user'' ''q5'', stub_turn ''assistant'' ''a5''],
      inputValue = js ''q6'', isLoading = False\<rparr> =
     Some \<lparr>message = js ''q6'', conversation_history = Some
       [stub_turn ''user'' ''q1'', stub_turn ''assistant'' ''a1'',
        stub_turn ''user'' ''q2'', stub_turn ''assistant'' ''a2'', stub_turn ''user'' ''q3'',
        stub_turn ''assistant'' ''a3'', stub_turn ''user'' ''q4'', stub_turn ''assistant'' ''a4'',
        stub_turn ''user'' ''q5'', stub_turn ''assistant'' ''a5'']\<rparr>
   \<and> trace (snd (callGeminiWithTools (stub_env [] [] stub_fetch) (js ''q6'')
       (Some [stub_turn ''user'' ''q1'', stub_turn ''assistant'' ''a1'',
        stub_turn ''user'' ''q2'', stub_turn ''assistant'' ''a2'', stub_turn ''user'' ''q3'',
        stub_turn ''assistant'' ''a3'', stub_turn ''user'' ''q4'', stub_turn ''assistant'' ''a4'',
        stub_turn ''user'' ''q5'', stub_turn ''assistant'' ''a5'']) (start 0))) =
     [Called (GeminiChat
        [\<lparr>g_role = User, g_text = js ''q1''\<rparr>, \<lparr>g_role = Model, g_text = js ''a1''\<rparr>,
         \<lparr>g_role = User, g_text = js ''q2''\<rparr>, \<lparr>g_role = Model, g_text = js ''a2''\<rparr>,
         \<lparr>g_role = User, g_text = js ''q3''\<rparr>, \<lparr>g_role = Model, g_text = js ''a3''\<rparr>,
         \<lparr>g_role = User, g_text = js ''q4''\<rparr>, \<lparr>g_role = Model, g_text = js ''a4''\<rparr>,
         \<lparr>g_role = User, g_text = js ''q5''\<rparr>, \<lparr>g_role = Model, g_text = js ''a5''\<rparr>]
        (js ''q6''))]
   \<and> trace (snd (callOllamaWithTools (stub_env [] [] stub_fetch) (js ''q6'')
       (Some [stub_turn ''assistant'' ''a0'', stub_turn ''user'' ''q1'', stub_turn ''assistant'' ''a1'',
        stub_turn ''user'' ''q2'', stub_turn ''assistant'' ''a2'', stub_turn ''user'' ''q3'',
        stub_turn ''assistant'' ''a3'', stub_turn ''user'' ''q4'', stub_turn ''assistant'' ''a4'',
        stub_turn ''user'' ''q5'', stub_turn ''assistant'' ''a5'']) (start 0))) =
     [Called (OllamaChat
        [\<lparr>o_role = System, o_content = systemPrompt_tools\<rparr>,
         \<lparr>o_role = Assistant, o_content = js ''a0''\<rparr>,
         \<lparr>o_role = User, o_content = js ''q1''\<rparr>, \<lparr>o_role = Assistant, o_content = js ''a1''\<rparr>,
         \<lparr>o_role = User, o_content = js ''q2''\<rparr>, \<lparr>o_role = Assistant, o_content = js ''a2''\<rparr>,
         \<lparr>o_role = User, o_content = js ''q3''\<rparr>, \<lparr>o_role = Assistant, o_content = js ''a3''\<rparr>,
         \<lparr>o_role = User, o_content = js ''q4''\<rparr>, \<lparr>o_role = Assistant, o_content = js ''a4''\<rparr>,
         \<lparr>o_role = User, o_content = js ''q5''\<rparr>, \<lparr>o_role = Assistant, o_content = js ''a5''\<rparr>,
         \<lparr>o_role = User, o_content = js ''q6''\<rparr>])]"
proof -
  let ?recent = "[stub_turn ''user'' ''q1'', stub_turn ''assistant'' ''a1'',
        stub_turn ''user'' ''q2'', stub_turn ''assistant'' ''a2'', stub_turn ''user'' ''q3'',
        stub_turn ''assistant'' ''a3'', stub_turn ''user'' ''q4'', stub_turn ''assistant'' ''a4'',
        stub_turn ''user'' ''q5'', stub_turn ''assistant'' ''a5'']"
  let ?c = "\<lparr>messages = stub_turn ''assistant'' ''a0'' # ?recent,
      inputValue = js ''q6'', isLoading = False\<rparr>"
  let ?req = "\<lparr>message = js ''q6'', conversation_history = Some ?recent\<rparr>"
  let ?E = "stub_env [] [] stub_fetch :: (nat, json) env"
  let ?s = "start 0 :: (nat, json) sys"
  have sent: "sendMessage ?c = Some ?req"
    by (simp add: sendMessage_def slice_last_def trim_def chars)
  have long: "10 < length (messages ?c)" by simp
  have full: "list_all has_content (messages ?c)"
    by (simp add: stub_turn_def turns chars)
  have roles: "map (\<lambda>t. \<lparr>o_role = (if is_user t then User else Assistant),
                            o_content = content_of t\<rparr>) (messages ?c) =
       [\<lparr>o_role = Assistant, o_content = js ''a0''\<rparr>,
         \<lparr>o_role = User, o_content = js ''q1''\<rparr>, \<lparr>o_role = Assistant, o_content = js ''a1''\<rparr>,
         \<lparr>o_role = User, o_content = js ''q2''\<rparr>, \<lparr>o_role = Assistant, o_content = js ''a2''\<rparr>,
         \<lparr>o_role = User, o_content = js ''q3''\<rparr>, \<lparr>o_role = Assistant, o_content = js ''a3''\<rparr>,
         \<lparr>o_role = User, o_content = js ''q4''\<rparr>, \<lparr>o_role = Assistant, o_content = js ''a4''\<rparr>,
         \<lparr>o_role = User, o_content = js ''q5''\<rparr>, \<lparr>o_role = Assistant, o_content = js ''a5''\<rparr>]"
    by (simp add: stub_turn_def turns chars)
  note C6 = C6_last_ten_turns [of ?c ?req ?E ?s _ _ "messages ?c" "js ''q6''"]
  have whole: "trace (snd (callOllamaWithTools ?E (js ''q6'') (Some (messages ?c)) ?s)) =
         trace ?s @ [Called (OllamaChat
           (\<lparr>o_role = System, o_content = systemPrompt_tools\<rparr>
              # map (\<lambda>t. \<lparr>o_role = (if is_user t then User else Assistant),
                            o_content = content_of t\<rparr>) (messages ?c)
              @ [\<lparr>o_role = User, o_content = js ''q6''\<rparr>]))]"
    using C6 full by blast
  obtain older recent where r: "messages ?c = older @ recent" "length recent = 10"
    and t: "trace (snd (callGeminiWithTools ?E (message ?req) (conversation_history ?req) ?s)) =
          trace ?s @ [Called (GeminiChat (gemini_history (inputValue ?c) recent) (inputValue ?c))]"
    using C6 sent long by blast
  have "recent = drop (length (older @ recent) - length recent) (older @ recent)"
    by simp
  then have "recent = drop (length (messages ?c) - 10) (messages ?c)"
    unfolding r(1) [symmetric] r(2) .
  then have "recent = ?recent" by simp
  moreover have "gemini_history (js ''q6'') ?recent =
        [\<lparr>g_role = User, g_text = js ''q1''\<rparr>, \<lparr>g_role = Model, g_text = js ''a1''\<rparr>,
         \<lparr>g_role = User, g_text = js ''q2''\<rparr>, \<lparr>g_role = Model, g_text = js ''a2''\<rparr>,
         \<lparr>g_role = User, g_text = js ''q3''\<rparr>, \<lparr>g_role = Model, g_text = js ''a3''\<rparr>,
         \<lparr>g_role = User, g_text = js ''q4''\<rparr>, \<lparr>g_role = Model, g_text = js ''a4''\<rparr>,
         \<lparr>g_role = User, g_text = js ''q5''\<rparr>, \<lparr>g_role = Model, g_text = js ''a5''\<rparr>]"
    by (simp add: gemini_history_def ensure_first_user_def gemini_format_def clean_loop.simps
        stub_turn_def turns chars)
  ultimately have cut: "trace (snd (callGeminiWithTools ?E (js ''q6'') (Some ?recent) ?s)) =
     [Called (GeminiChat
        [\<lparr>g_role = User, g_text = js ''q1''\<rparr>, \<lparr>g_role = Model, g_text = js ''a1''\<rparr>,
         \<lparr>g_role = User, g_text = js ''q2''\<rparr>, \<lparr>g_role = Model, g_text = js ''a2''\<rparr>,
         \<lparr>g_role = User, g_text = js ''q3''\<rparr>, \<lparr>g_role = Model, g_text = js ''a3''\<rparr>,
         \<lparr>g_role = User, g_text = js ''q4''\<rparr>, \<lparr>g_role = Model, g_text = js ''a4''\<rparr>,
         \<lparr>g_role = User, g_text = js ''q5''\<rparr>, \<lparr>g_role = Model, g_text = js ''a5''\<rparr>]
        (js ''q6''))]"
    using t by (simp add: start_def)
  show ?thesis
    using sent cut whole unfolding roles by (simp add: start_def)
qed

text \<open>
  Claim C6 as stated fails on the server: a request that carries twelve turns is
  forwarded to the model with all twelve; the two oldest turns, which are not among
  the last ten, are sent as well.
\<close>

theorem C6_counterexample:
  "trace (snd (callGeminiWithTools (stub_env [] [] stub_fetch) (js ''q6'')
      (Some [stub_turn ''user'' ''q0'', stub_turn ''assistant'' ''a0'',
        stub_turn ''user'' ''q1'', stub_turn ''assistant'' ''a1'',
        stub_turn ''user'' ''q2'', stub_turn ''assistant'' ''a2'', stub_turn ''user'' ''q3'',
        stub_turn ''assistant'' ''a3'', stub_turn ''user'' ''q4'', stub_turn ''assistant'' ''a4'',
        stub_turn ''user'' ''q5'', stub_turn ''assistant'' ''a5''])
      \<lparr>world = 0, trace = []\<rparr>)) =
     [Called (GeminiChat
        [\<lparr>g_role = User, g_text = js ''q0''\<rparr>, \<lparr>g_role = Model, g_text = js ''a0''\<rparr>,
         \<lparr>g_role = User, g_text = js ''q1''\<rparr>, \<lparr>g_role = Model, g_text = js ''a1''\<rparr>,
         \<lparr>g_role = User, g_text = js ''q2''\<rparr>, \<lparr>g_role = Model, g_text = js ''a2''\<rparr>,
         \<lparr>g_role = User, g_text = js ''q3''\<rparr>, \<lparr>g_role = Model, g_text = js ''a3''\<rparr>,
         \<lparr>g_role = User, g_text = js ''q4''\<rparr>, \<lparr>g_role = Model, g_text = js ''a4''\<rparr>,
         \<lparr>g_role = User, g_text = js ''q5''\<rparr>, \<lparr>g_role = Model, g_text = js ''a5''\<rparr>]
        (js ''q6''))]"
  by (simp add: callGemini_trace history_or_empty_def gemini_history_def ensure_first_user_def
      gemini_format_def clean_loop.simps stub_turn_def turns chars)

end
